theory Spec2Isabelle
  imports Complex_Main "HOL-Library.Word"
begin

section \<open>Screen grabber of flameshot: geometry, scale reconciliation, capture backends\<close>

text \<open>
  Embedding of \<^verbatim>\<open>src/utils/screengrabber.cpp\<close> (Linux/Unix build, where the
  preprocessor keeps the DBus, grim and hyprctl code).

  Conventions of the embedding:
  \<^item> C++ \<^verbatim>\<open>int\<close> is \<open>int\<close>. Signed overflow is undefined in C++, so the
    additions and subtractions of \<^verbatim>\<open>QRect\<close> are written without wrap-around; the
    conversion \<^verbatim>\<open>static_cast<int>\<close> of a \<^verbatim>\<open>long long\<close> keeps the low 32 bits.
  \<^item> A \<^verbatim>\<open>qreal\<close> or \<^verbatim>\<open>double\<close> is the real number it denotes, and every
    arithmetic operation on doubles is the exact operation followed by the IEEE 754
    rounding to binary64 (to nearest, ties to even, with gradual underflow);
    \<^verbatim>\<open>float\<close> likewise with binary32. Overflow to an infinity is not part of
    the rounding function: quotients beyond the largest double lie outside the
    model. Division by zero is written out where the source can reach it.
  \<^item> What the program asks of its surroundings (Qt, the session bus, external
    processes, and the classes \<^verbatim>\<open>DesktopInfo\<close> and \<^verbatim>\<open>ConfigHandler\<close> that are
    declared outside this file) is a field of the record \<open>world\<close>.
  \<^item> What the program does to its surroundings is a list of \<open>event\<close>s, in
    program order, returned next to the result.
\<close>

subsection \<open>Floating point\<close>

text \<open>
  The binary exponent of a non-zero real: the \<open>e\<close> with \<open>2 ^ e \<le> \<bar>x\<bar> < 2 ^ (e + 1)\<close>,
  found by halving from above 1 and by doubling from below 1.
\<close>

function expoUp :: "real \<Rightarrow> int" where
  "expoUp x = (if x < 2 then 0 else expoUp (x / 2) + 1)"
  by pat_completeness auto
termination
proof (relation "measure (\<lambda>x. nat \<lfloor>x\<rfloor>)")
  show "wf (measure (\<lambda>x. nat \<lfloor>x\<rfloor>))" by simp
next
  fix x :: real
  assume "\<not> x < 2"
  then have "\<lfloor>x / 2\<rfloor> < \<lfloor>x\<rfloor>" and "0 < \<lfloor>x\<rfloor>" by linarith+
  then show "(x / 2, x) \<in> measure (\<lambda>x. nat \<lfloor>x\<rfloor>)" by simp
qed

function expoDown :: "real \<Rightarrow> int" where
  "expoDown x = (if 1 \<le> x \<or> x \<le> 0 then 0 else expoDown (2 * x) - 1)"
  by pat_completeness auto
termination
proof (relation "measure (\<lambda>x. nat \<lceil>1 / x\<rceil>)")
  show "wf (measure (\<lambda>x. nat \<lceil>1 / x\<rceil>))" by simp
next
  fix x :: real
  assume "\<not> (1 \<le> x \<or> x \<le> 0)"
  then have x: "0 < x" "x < 1" by simp_all
  then have "1 < 1 / x" by simp
  then have c: "2 \<le> \<lceil>1 / x\<rceil>" by linarith
  have "1 / (2 * x) = (1 / x) / 2" by simp
  also have "\<dots> \<le> real_of_int \<lceil>1 / x\<rceil> / 2" by (simp add: divide_right_mono)
  finally have "\<lceil>1 / (2 * x)\<rceil> \<le> \<lceil>real_of_int \<lceil>1 / x\<rceil> / 2\<rceil>" by (rule ceiling_mono)
  also have "\<dots> < \<lceil>1 / x\<rceil>" using c by linarith
  finally have "\<lceil>1 / (2 * x)\<rceil> < \<lceil>1 / x\<rceil>" .
  with c have "nat \<lceil>1 / (2 * x)\<rceil> < nat \<lceil>1 / x\<rceil>" by linarith
  then show "(2 * x, x) \<in> measure (\<lambda>x. nat \<lceil>1 / x\<rceil>)" by simp
qed

declare expoUp.simps [simp del] expoDown.simps [simp del]

definition expo :: "real \<Rightarrow> int" where
  "expo x = (if 1 \<le> \<bar>x\<bar> then expoUp \<bar>x\<bar> else expoDown \<bar>x\<bar>)"

text \<open>Rounding to the nearest integer, a tie going to the even one.\<close>

definition rne :: "real \<Rightarrow> int" where
  "rne y =
     (let f = \<lfloor>y\<rfloor>; r = y - real_of_int f
      in if r < 1 / 2 then f else if 1 / 2 < r then f + 1 else if even f then f else f + 1)"

text \<open>
  Rounding to a binary format of precision \<open>p\<close> and least normal exponent \<open>emin\<close>:
  the spacing of the format at \<open>x\<close> is \<open>2 ^ (max e emin - (p - 1))\<close>, and \<open>x\<close> goes
  to the nearest multiple of it. Binary64 has \<open>p = 53\<close> and \<open>emin = -1022\<close>, binary32
  has \<open>p = 24\<close> and \<open>emin = -126\<close>.
\<close>

definition ulp :: "int \<Rightarrow> int \<Rightarrow> real \<Rightarrow> real" where
  "ulp p emin x = 2 powi (max (expo x) emin - (p - 1))"

definition fl :: "int \<Rightarrow> int \<Rightarrow> real \<Rightarrow> real" where
  "fl p emin x = (if x = 0 then 0 else real_of_int (rne (x / ulp p emin x)) * ulp p emin x)"

definition fl64 :: "real \<Rightarrow> real" where "fl64 = fl 53 (- 1022)"
definition fl32 :: "real \<Rightarrow> real" where "fl32 = fl 24 (- 126)"

subsection \<open>Qt rectangles\<close>

text \<open>
  \<^verbatim>\<open>QRect\<close> stores the corners \<^verbatim>\<open>x1, y1, x2, y2\<close> (both inclusive);
  \<^verbatim>\<open>QRect(x, y, w, h)\<close> sets \<^verbatim>\<open>x2 = x + w - 1\<close>, \<^verbatim>\<open>y2 = y + h - 1\<close>, and the
  default constructor gives \<^verbatim>\<open>(0, 0, -1, -1)\<close>.
\<close>

datatype QRect = QRect (qx1: int) (qy1: int) (qx2: int) (qy2: int)

definition mkRect :: "int \<Rightarrow> int \<Rightarrow> int \<Rightarrow> int \<Rightarrow> QRect" where
  "mkRect x y w h = QRect x y (x + w - 1) (y + h - 1)"

definition nullRect :: QRect where
  "nullRect = QRect 0 0 (- 1) (- 1)"

definition width :: "QRect \<Rightarrow> int" where
  "width r = qx2 r - qx1 r + 1"

definition height :: "QRect \<Rightarrow> int" where
  "height r = qy2 r - qy1 r + 1"

definition rsize :: "QRect \<Rightarrow> int \<times> int" where
  "rsize r = (width r, height r)"

definition isNull :: "QRect \<Rightarrow> bool" where
  "isNull r \<longleftrightarrow> qx2 r = qx1 r - 1 \<and> qy2 r = qy1 r - 1"

text \<open>
  \<^verbatim>\<open>QRect::united\<close> (\<^verbatim>\<open>operator|\<close>): a null operand is dropped; otherwise each
  operand is normalised (a negative extent is read from its other end) and the
  bounding rectangle is returned.
\<close>

definition united :: "QRect \<Rightarrow> QRect \<Rightarrow> QRect" where
  "united a r =
     (if isNull a then r
      else if isNull r then a
      else
        let l1 = (if qx2 a < qx1 a - 1 then qx2 a + 1 else qx1 a);
            r1 = (if qx2 a < qx1 a - 1 then qx1 a - 1 else qx2 a);
            l2 = (if qx2 r < qx1 r - 1 then qx2 r + 1 else qx1 r);
            r2 = (if qx2 r < qx1 r - 1 then qx1 r - 1 else qx2 r);
            t1 = (if qy2 a < qy1 a - 1 then qy2 a + 1 else qy1 a);
            b1 = (if qy2 a < qy1 a - 1 then qy1 a - 1 else qy2 a);
            t2 = (if qy2 r < qy1 r - 1 then qy2 r + 1 else qy1 r);
            b2 = (if qy2 r < qy1 r - 1 then qy1 r - 1 else qy2 r)
        in QRect (min l1 l2) (min t1 t2) (max r1 r2) (max b1 b2))"

text \<open>
  \<^verbatim>\<open>QRectF\<close> stores \<^verbatim>\<open>xp, yp, w, h\<close>; the default constructor gives all zero.
  It is null when both extents are zero.
\<close>

datatype QRectF = QRectF (fxp: real) (fyp: real) (fw: real) (fh: real)

definition nullRectF :: QRectF where
  "nullRectF = QRectF 0 0 0 0"

definition isNullF :: "QRectF \<Rightarrow> bool" where
  "isNullF r \<longleftrightarrow> fw r = 0 \<and> fh r = 0"

definition unitedF :: "QRectF \<Rightarrow> QRectF \<Rightarrow> QRectF" where
  "unitedF a r =
     (if isNullF a then r
      else if isNullF r then a
      else
        let left0 = (if fw a < 0 then fl64 (fxp a + fw a) else fxp a);
            right0 = (if fw a < 0 then fxp a else fl64 (fxp a + fw a));
            left = (if fw r < 0 then min left0 (fl64 (fxp r + fw r)) else min left0 (fxp r));
            right = (if fw r < 0 then max right0 (fxp r) else max right0 (fl64 (fxp r + fw r)));
            top0 = (if fh a < 0 then fl64 (fyp a + fh a) else fyp a);
            bottom0 = (if fh a < 0 then fyp a else fl64 (fyp a + fh a));
            top = (if fh r < 0 then min top0 (fl64 (fyp r + fh r)) else min top0 (fyp r));
            bottom = (if fh r < 0 then max bottom0 (fyp r) else max bottom0 (fl64 (fyp r + fh r)))
        in QRectF left top (fl64 (right - left)) (fl64 (bottom - top)))"

text \<open>
  \<^verbatim>\<open>QRectF::toAlignedRect\<close>: floor of the left and top edge, ceiling of the
  computed right and bottom edge \<^verbatim>\<open>xp + w\<close> and \<^verbatim>\<open>yp + h\<close>.
\<close>

definition toAlignedRect :: "QRectF \<Rightarrow> QRect" where
  "toAlignedRect r =
     (let xmin = \<lfloor>fxp r\<rfloor>; xmax = \<lceil>fl64 (fxp r + fw r)\<rceil>;
          ymin = \<lfloor>fyp r\<rfloor>; ymax = \<lceil>fl64 (fyp r + fh r)\<rceil>
      in mkRect xmin ymin (xmax - xmin) (ymax - ymin))"

subsection \<open>The surroundings\<close>

text \<open>
  Modelled from the spec: the enumeration \<^verbatim>\<open>DesktopInfo::WM\<close> is declared outside
  this file; the spec lists the classification as GNOME, KDE, COSMIC, QTILE,
  WLROOTS, HYPRLAND, OTHER and "none detected". The last one stands for every
  value that the \<^verbatim>\<open>switch\<close> of \<^verbatim>\<open>grabEntireDesktop\<close> leaves to \<^verbatim>\<open>default\<close>.
\<close>

datatype WM = GNOME | KDE | COSMIC | QTILE | WLROOTS | HYPRLAND | OTHER | NONE_DETECTED

text \<open>
  How a \<^verbatim>\<open>QProcess\<close> that was started ends, seen from \<^verbatim>\<open>waitForFinished\<close> with the
  caller's bound: the program could not be started, it was still running when the
  bound elapsed, or it finished with an exit code. \<^verbatim>\<open>waitForFinished\<close> answers
  \<^verbatim>\<open>true\<close> exactly when the process finished.
\<close>

datatype proc_outcome = FailedToStart | TimedOut | Exited int

fun waitForFinished :: "proc_outcome \<Rightarrow> bool" where
  "waitForFinished (Exited c) = True"
| "waitForFinished FailedToStart = False"
| "waitForFinished TimedOut = False"

text \<open>JSON values as \<^verbatim>\<open>QJsonValue\<close> has them; an object is its list of members.\<close>

datatype json =
    JNull | JBool bool | JNum real | JStr string
  | JArr "json list" | JObj "(string \<times> json) list"

text \<open>
  \<^verbatim>\<open>QJsonDocument::fromJson(output, &parseError)\<close>: either an error with its text,
  or a document.
\<close>

datatype json_parse = ParseFailed string | Parsed json

text \<open>\<^verbatim>\<open>obj.value(key).toDouble(d)\<close>: \<open>d\<close> unless the member exists and is a number.\<close>

definition toDouble :: "(string \<times> json) list \<Rightarrow> string \<Rightarrow> real \<Rightarrow> real" where
  "toDouble obj key d = (case map_of obj key of Some (JNum v) \<Rightarrow> v | _ \<Rightarrow> d)"

text \<open>
  \<^verbatim>\<open>QPixmap\<close>: the null pixmap (no image; size 0 by 0, ratio 1), or an image with
  its pixel size, its device pixel ratio and its content. The ratio is a
  \<^verbatim>\<open>qreal\<close> that the program may compute by a division by zero.
\<close>

datatype fval = Finite real | PosInf | NegInf | NaN

datatype QPixmap =
    NullPixmap
  | Pixmap (pm_width: int) (pm_height: int) (pm_ratio: fval) (pm_pixels: nat)

fun pixmapIsNull :: "QPixmap \<Rightarrow> bool" where
  "pixmapIsNull NullPixmap = True"
| "pixmapIsNull (Pixmap pw ph d c) = False"

fun pixmapSize :: "QPixmap \<Rightarrow> int \<times> int" where
  "pixmapSize NullPixmap = (0, 0)"
| "pixmapSize (Pixmap pw ph d c) = (pw, ph)"

fun pixmapHeight :: "QPixmap \<Rightarrow> int" where
  "pixmapHeight NullPixmap = 0"
| "pixmapHeight (Pixmap pw ph d c) = ph"

fun devicePixelRatio :: "QPixmap \<Rightarrow> fval" where
  "devicePixelRatio NullPixmap = Finite 1"
| "devicePixelRatio (Pixmap pw ph d c) = d"

text \<open>\<^verbatim>\<open>QPixmap::setDevicePixelRatio\<close> returns at once on a null pixmap.\<close>

fun setDevicePixelRatio :: "QPixmap \<Rightarrow> fval \<Rightarrow> QPixmap" where
  "setDevicePixelRatio NullPixmap v = NullPixmap"
| "setDevicePixelRatio (Pixmap pw ph d c) v = Pixmap pw ph v c"

record QScreen =
  geometry :: QRect
  screenRatio :: real

text \<open>What the nested event loop delivers, one event after the other.\<close>

datatype bus_event =
    Response "32 word" "(string \<times> string) list"
  | OtherEvent

record world =
  waylandDetected :: bool
  windowManager :: WM
  useGrimAdapter :: bool
  disabledGrimWarning :: bool
  screens :: "QScreen list"
  appDevicePixelRatio :: real
  hyprctl :: proc_outcome
  hyprctlOutput :: json_parse
  grim :: proc_outcome
  xdgRuntimeDir :: string
  loadPixmap :: "string \<Rightarrow> QPixmap"
  serviceRegistered :: bool
  baseService :: string
  uuid :: string
  busEvents :: "nat \<Rightarrow> bus_event"
  toLocalFile :: "string \<Rightarrow> string"
  primaryScreen :: QScreen
  grabWindow :: "int \<Rightarrow> int \<Rightarrow> int \<Rightarrow> int \<Rightarrow> QPixmap"

text \<open>
  The fields, by the call that reads them:
  \<^item> \<open>waylandDetected\<close>, \<open>windowManager\<close>: \<^verbatim>\<open>m_info\<close>;
  \<^item> \<open>useGrimAdapter\<close>, \<open>disabledGrimWarning\<close>: \<^verbatim>\<open>ConfigHandler()\<close>;
  \<^item> \<open>screens\<close>: \<^verbatim>\<open>QGuiApplication::screens()\<close>, each with \<^verbatim>\<open>geometry()\<close> and
    \<^verbatim>\<open>devicePixelRatio()\<close>; \<open>appDevicePixelRatio\<close>: \<^verbatim>\<open>qApp->devicePixelRatio()\<close>;
  \<^item> \<open>hyprctl\<close>: how \<^verbatim>\<open>hyprctl monitors -j\<close> ends within 1000 ms;
    \<open>hyprctlOutput\<close>: its standard output through \<^verbatim>\<open>QJsonDocument::fromJson\<close>;
  \<^item> \<open>grim\<close>: how \<^verbatim>\<open>grim -t ppm path\<close> ends within the default bound;
  \<^item> \<open>xdgRuntimeDir\<close>: the environment variable \<^verbatim>\<open>XDG_RUNTIME_DIR\<close>;
  \<^item> \<open>loadPixmap\<close>: the pixmap a file loads to (null when it does not load);
  \<^item> \<open>serviceRegistered\<close>: whether \<^verbatim>\<open>org.freedesktop.portal.Desktop\<close> is on the
    session bus; \<open>baseService\<close>: the caller's bus name; \<open>uuid\<close>: the text of
    \<^verbatim>\<open>QUuid::createUuid()\<close>;
  \<^item> \<open>busEvents\<close>: the events the nested \<^verbatim>\<open>QEventLoop\<close> dispatches, in order;
  \<^item> \<open>toLocalFile\<close>: \<^verbatim>\<open>QUrl(s).toLocalFile()\<close>;
  \<^item> \<open>primaryScreen\<close>: \<^verbatim>\<open>QGuiApplication::primaryScreen()\<close>; \<open>grabWindow\<close>: what
    its \<^verbatim>\<open>grabWindow(0, x, y, w, h)\<close> returns.
\<close>

text \<open>
  What the program does, as far as the properties speak of it: a message to the
  logger, the start of a process, the load and the removal of a file, the calls on
  the session bus and on the request object, the nested event loop, a grab.
\<close>

datatype event =
    Warning string
  | Error string
  | ProcessStart string "string list"
  | PixmapLoad string
  | FileRemove string
  | IsServiceRegistered string
  | RequestNew string
  | Connect
  | BusCall string string "(string \<times> string) list"
  | LoopExec
  | Disconnect
  | RequestClose
  | RequestDeleteLater
  | GrabWindow int int int int

subsection \<open>Desktop geometry\<close>

text \<open>\<^verbatim>\<open>std::llround\<close>: to the nearest integer, halves away from zero.\<close>

definition llround :: "real \<Rightarrow> int" where
  "llround v = (if 0 \<le> v then \<lfloor>v + 1 / 2\<rfloor> else - \<lfloor>- v + 1 / 2\<rfloor>)"

text \<open>
  The lambda \<^verbatim>\<open>toInt\<close>: \<^verbatim>\<open>static_cast<int>(std::llround(value))\<close>. The cast
  keeps the low 32 bits, read as a signed number.
\<close>

definition toInt :: "real \<Rightarrow> int" where
  "toInt v = sint (word_of_int (llround v) :: 32 word)"

text \<open>
  The loop of \<^verbatim>\<open>hyprlandDesktopGeometries\<close> over the array of monitors, with its
  three variables \<^verbatim>\<open>physicalUnion\<close>, \<^verbatim>\<open>logicalUnion\<close> and \<^verbatim>\<open>gotMonitor\<close>.
\<close>

fun monitorsLoop :: "json list \<Rightarrow> QRect \<Rightarrow> QRect \<Rightarrow> bool \<Rightarrow> QRect \<times> QRect \<times> bool" where
  "monitorsLoop [] physicalUnion logicalUnion gotMonitor =
     (physicalUnion, logicalUnion, gotMonitor)"
| "monitorsLoop (JObj obj # vs) physicalUnion logicalUnion gotMonitor =
     (let w = toDouble obj ''width'' 0;
          h = toDouble obj ''height'' 0;
          x = toDouble obj ''x'' 0;
          y = toDouble obj ''y'' 0;
          scale = toDouble obj ''scale'' 1
      in if w \<le> 0 \<or> h \<le> 0 \<or> scale \<le> 0
         then monitorsLoop vs physicalUnion logicalUnion gotMonitor
         else
           let physicalRect = mkRect (toInt x) (toInt y) (toInt w) (toInt h);
               logicalRect = mkRect (toInt (fl64 (x / scale))) (toInt (fl64 (y / scale)))
                                    (toInt (fl64 (w / scale))) (toInt (fl64 (h / scale)))
           in monitorsLoop vs (united physicalUnion physicalRect)
                (united logicalUnion logicalRect) True)"
| "monitorsLoop (v # vs) physicalUnion logicalUnion gotMonitor =
     monitorsLoop vs physicalUnion logicalUnion gotMonitor"

definition hyprctlStart :: event where
  "hyprctlStart = ProcessStart ''hyprctl'' [''monitors'', ''-j'']"

text \<open>
  \<^verbatim>\<open>hyprlandDesktopGeometries(physical, logical)\<close>: the two reference parameters
  are passed in and returned after the boolean.
\<close>

definition hyprlandDesktopGeometries ::
  "world \<Rightarrow> QRect \<Rightarrow> QRect \<Rightarrow> (bool \<times> QRect \<times> QRect) \<times> event list" where
  "hyprlandDesktopGeometries w physical logical =
     (if \<not> (waylandDetected w \<and> windowManager w = HYPRLAND)
      then ((False, physical, logical), [])
      else if \<not> waitForFinished (hyprctl w)
      then ((False, physical, logical),
            [hyprctlStart, Warning ''Unable to query Hyprland monitors via hyprctl.''])
      else
        (case hyprctlOutput w of
           ParseFailed msg \<Rightarrow>
             ((False, physical, logical),
              [hyprctlStart, Warning (''Failed to parse hyprctl monitor output: '' @ msg)])
         | Parsed (JArr vs) \<Rightarrow>
             (case monitorsLoop vs nullRect nullRect False of
                (physicalUnion, logicalUnion, gotMonitor) \<Rightarrow>
                  if gotMonitor
                  then ((True, physicalUnion, logicalUnion), [hyprctlStart])
                  else ((False, physical, logical), [hyprctlStart]))
         | Parsed doc \<Rightarrow>
             ((False, physical, logical),
              [hyprctlStart,
               Warning (''Failed to parse hyprctl monitor output: '' @ ''no error occurred'')])))"

fun physicalLoop :: "QScreen list \<Rightarrow> QRect \<Rightarrow> QRect" where
  "physicalLoop [] g = g"
| "physicalLoop (screen # ss) g = physicalLoop ss (united g (geometry screen))"

definition desktopGeometry :: "world \<Rightarrow> QRect \<times> event list" where
  "desktopGeometry w =
     (case hyprlandDesktopGeometries w nullRect nullRect of
        ((True, hyprPhysical, hyprLogical), evs) \<Rightarrow> (hyprPhysical, evs)
      | ((False, hyprPhysical, hyprLogical), evs) \<Rightarrow> (physicalLoop (screens w) nullRect, evs))"

fun logicalLoop :: "QScreen list \<Rightarrow> QRectF \<Rightarrow> QRectF" where
  "logicalLoop [] g = g"
| "logicalLoop (screen # ss) g =
     (let screenRect = geometry screen;
          dpr = screenRatio screen;
          logicalRect = QRectF (fl64 (real_of_int (qx1 screenRect) / dpr))
                               (fl64 (real_of_int (qy1 screenRect) / dpr))
                               (fl64 (real_of_int (width screenRect) / dpr))
                               (fl64 (real_of_int (height screenRect) / dpr))
      in logicalLoop ss (unitedF g logicalRect))"

text \<open>
  Qt reports a positive ratio for every screen; the definition says nothing
  faithful about a screen of ratio zero.
\<close>

definition logicalDesktopGeometry :: "world \<Rightarrow> QRect \<times> event list" where
  "logicalDesktopGeometry w =
     (case hyprlandDesktopGeometries w nullRect nullRect of
        ((True, hyprPhysical, hyprLogical), evs) \<Rightarrow> (hyprLogical, evs)
      | ((False, hyprPhysical, hyprLogical), evs) \<Rightarrow>
          (toAlignedRect (logicalLoop (screens w) nullRectF), evs))"

subsection \<open>Scale reconciliation\<close>

text \<open>
  \<^verbatim>\<open>pixmap.height() * 1.0f / logicalGeo.height()\<close>: both integers are converted
  to \<^verbatim>\<open>float\<close>, the product with \<^verbatim>\<open>1.0f\<close> is exact, and the division is the
  single-precision one, with the IEEE answers for a zero divisor. The \<^verbatim>\<open>float\<close>
  becomes the \<^verbatim>\<open>qreal\<close> argument without change.
\<close>

definition fdiv :: "int \<Rightarrow> int \<Rightarrow> fval" where
  "fdiv n d =
     (if d \<noteq> 0 then Finite (fl32 (fl32 (real_of_int n) / fl32 (real_of_int d)))
      else if 0 < n then PosInf else if n < 0 then NegInf else NaN)"

definition adjustDevicePixelRatio :: "world \<Rightarrow> QPixmap \<Rightarrow> QPixmap \<times> event list" where
  "adjustDevicePixelRatio w pixmap =
     (case desktopGeometry w of (physicalGeo, evs1) \<Rightarrow>
      case logicalDesktopGeometry w of (logicalGeo, evs2) \<Rightarrow>
        (if pixmapSize pixmap = rsize physicalGeo
         then setDevicePixelRatio pixmap (Finite (appDevicePixelRatio w))
         else if pixmapSize pixmap \<noteq> rsize logicalGeo
         then setDevicePixelRatio pixmap (fdiv (pixmapHeight pixmap) (height logicalGeo))
         else pixmap,
         evs1 @ evs2))"

subsection \<open>The helper-tool backend\<close>

definition grimMissing :: string where
  "grimMissing =
     ''The universal wayland screen capture adapter requires Grim as '' @
     ''the screen capture component of wayland. If the screen '' @
     ''capture component is missing, please install it!''"

text \<open>
  \<^verbatim>\<open>generalGrimScreenshot(ok, res)\<close>: the two reference parameters are passed in
  and returned. \<^verbatim>\<open>res.load\<close> leaves the null pixmap when the file does not load.
\<close>

definition generalGrimScreenshot ::
  "world \<Rightarrow> bool \<Rightarrow> QPixmap \<Rightarrow> (bool \<times> QPixmap) \<times> event list" where
  "generalGrimScreenshot w ok res =
     (if \<not> useGrimAdapter w then ((ok, res), [])
      else
        let imgPath = xdgRuntimeDir w @ ''/flameshot.ppm'';
            started = ProcessStart ''grim'' [''-t'', ''ppm'', imgPath]
        in if waitForFinished (grim w)
           then
             (case adjustDevicePixelRatio w (loadPixmap w imgPath) of
                (res', evs) \<Rightarrow>
                  ((True, res'), [started, PixmapLoad imgPath, FileRemove imgPath] @ evs))
           else ((False, res), [started, Error grimMissing]))"

subsection \<open>The permission-broker backend\<close>

definition service :: string where
  "service = ''org.freedesktop.portal.Desktop''"

definition remove :: "char \<Rightarrow> string \<Rightarrow> string" where
  "remove c s = filter (\<lambda>x. x \<noteq> c) s"

definition replace :: "char \<Rightarrow> char \<Rightarrow> string \<Rightarrow> string" where
  "replace c d s = map (\<lambda>x. if x = c then d else x) s"

definition token :: "world \<Rightarrow> string" where
  "token w = remove CHR ''}'' (remove CHR ''{'' (remove CHR ''-'' (uuid w)))"

definition requestPath :: "world \<Rightarrow> string" where
  "requestPath w =
     ''/org/freedesktop/portal/desktop/request/'' @
     replace CHR ''.'' CHR ''_'' (remove CHR '':'' (baseService w)) @ ''/'' @ token w"

text \<open>\<^verbatim>\<open>map.value("uri").toString()\<close>: empty when the map has no such entry.\<close>

definition uriOf :: "(string \<times> string) list \<Rightarrow> string" where
  "uriOf m = (case map_of m ''uri'' of Some u \<Rightarrow> u | None \<Rightarrow> [])"

text \<open>
  The handler \<^verbatim>\<open>gotSignal\<close>, without its last statement \<^verbatim>\<open>loop.quit()\<close>: it
  returns the captured variable \<^verbatim>\<open>res\<close>.
\<close>

definition gotSignal ::
  "world \<Rightarrow> 32 word \<Rightarrow> (string \<times> string) list \<Rightarrow> QPixmap \<Rightarrow> QPixmap \<times> event list" where
  "gotSignal w status m res =
     (if status = 0
      then
        let uriString = toLocalFile w (uriOf m)
        in (case adjustDevicePixelRatio w (loadPixmap w uriString) of
              (res', evs) \<Rightarrow> (res', [PixmapLoad uriString] @ evs @ [FileRemove uriString]))
      else (res, []))"

text \<open>
  \<^verbatim>\<open>loop.exec()\<close>: the loop dispatches event after event and returns once
  \<^verbatim>\<open>loop.quit()\<close> was called. Only \<^verbatim>\<open>gotSignal\<close> calls it, and always does; the
  handler runs when the \<^verbatim>\<open>Response\<close> signal of the request is dispatched. Nothing
  else ends the loop, so it is a partial function: \<open>None\<close> is a call that does
  not return.
\<close>

partial_function (option) loopExec ::
  "world \<Rightarrow> nat \<Rightarrow> QPixmap \<Rightarrow> (QPixmap \<times> event list) option" where
  "loopExec w i res =
     (case busEvents w i of
        Response status m \<Rightarrow> Some (gotSignal w status m res)
      | OtherEvent \<Rightarrow> loopExec w (Suc i) res)"

definition portalMissing :: string where
  "portalMissing = ''Could not locate the `org.freedesktop.portal.Desktop` service''"

definition freeDesktopPortal ::
  "world \<Rightarrow> bool \<Rightarrow> QPixmap \<Rightarrow> ((bool \<times> QPixmap) \<times> event list) option" where
  "freeDesktopPortal w ok res =
     (if \<not> serviceRegistered w
      then Some ((False, res), [IsServiceRegistered service, Error portalMissing])
      else
        (case loopExec w 0 res of
           None \<Rightarrow> None
         | Some (res', evs) \<Rightarrow>
             Some ((if pixmapIsNull res' then False else ok, res'),
                   [IsServiceRegistered service,
                    RequestNew (requestPath w),
                    Connect,
                    BusCall ''Screenshot'' [] [(''handle_token'', token w),
                                                (''interactive'', ''false'')],
                    LoopExec]
                   @ evs @ [Disconnect, RequestClose, RequestDeleteLater])))"

subsection \<open>The dispatcher\<close>

definition dbusWarning :: string where
  "dbusWarning =
     ''If the useGrimAdapter setting is not enabled, the '' @
     ''dbus protocol will be used. It should be noted that '' @
     ''using the dbus protocol under wayland is not '' @
     ''recommended. It is recommended to enable the '' @
     ''useGrimAdapter setting in flameshot.ini to activate '' @
     ''the grim-based general wayland screenshot adapter''"

definition grimWarning :: string where
  "grimWarning =
     ''grim's screenshot component is implemented based on '' @
     ''wlroots, it may not be used in GNOME or similar '' @
     ''desktop environments''"

definition detectErrors :: "event list" where
  "detectErrors =
     [Error (''Unable to detect desktop environment (GNOME? KDE? '' @ ''Qile? Sway? ...)''),
      Error (''Hint: try setting the XDG_CURRENT_DESKTOP environment '' @ ''variable.'')]"

text \<open>The statements after the \<^verbatim>\<open>switch\<close>: the last error, and \<^verbatim>\<open>return res\<close>.\<close>

definition afterSwitch :: "(bool \<times> QPixmap) \<times> event list \<Rightarrow> (bool \<times> QPixmap) \<times> event list" where
  "afterSwitch r =
     (case r of ((ok, res), evs) \<Rightarrow>
        ((ok, res), evs @ (if \<not> ok then [Error ''Unable to capture screen''] else [])))"

definition grimWarn :: "world \<Rightarrow> string \<Rightarrow> event list" where
  "grimWarn w msg = (if \<not> disabledGrimWarning w then [Warning msg] else [])"

definition prepend :: "event list \<Rightarrow> (bool \<times> QPixmap) \<times> event list \<Rightarrow> (bool \<times> QPixmap) \<times> event list" where
  "prepend evs0 r = (case r of (v, evs) \<Rightarrow> (v, evs0 @ evs))"

text \<open>The block shared by the cases QTILE, WLROOTS, HYPRLAND and OTHER.\<close>

definition grimOrPortal :: "world \<Rightarrow> ((bool \<times> QPixmap) \<times> event list) option" where
  "grimOrPortal w =
     (if \<not> useGrimAdapter w
      then map_option (prepend (grimWarn w dbusWarning)) (freeDesktopPortal w True NullPixmap)
      else Some (prepend (grimWarn w grimWarning) (generalGrimScreenshot w True NullPixmap)))"

text \<open>The implicit conversion of a \<^verbatim>\<open>double\<close> argument to \<^verbatim>\<open>int\<close> drops the fraction.\<close>

definition truncate :: "real \<Rightarrow> int" where
  "truncate v = (if 0 \<le> v then \<lfloor>v\<rfloor> else \<lceil>v\<rceil>)"

text \<open>
  \<^verbatim>\<open>grabEntireDesktop(ok)\<close> sets \<^verbatim>\<open>ok = true\<close> first. Under Wayland it declares a
  fresh (null) \<^verbatim>\<open>res\<close> and dispatches on the window manager; otherwise it grabs
  the desktop through the primary screen.
\<close>

definition grabEntireDesktop :: "world \<Rightarrow> ((bool \<times> QPixmap) \<times> event list) option" where
  "grabEntireDesktop w =
     (if waylandDetected w
      then
        map_option afterSwitch
          (case windowManager w of
             GNOME \<Rightarrow> freeDesktopPortal w True NullPixmap
           | KDE \<Rightarrow> freeDesktopPortal w True NullPixmap
           | COSMIC \<Rightarrow> freeDesktopPortal w True NullPixmap
           | QTILE \<Rightarrow> grimOrPortal w
           | WLROOTS \<Rightarrow> grimOrPortal w
           | HYPRLAND \<Rightarrow> grimOrPortal w
           | OTHER \<Rightarrow> grimOrPortal w
           | NONE_DETECTED \<Rightarrow> Some ((False, NullPixmap), detectErrors))
      else
        (case desktopGeometry w of (g, evs) \<Rightarrow>
           let r = geometry (primaryScreen w);
               x = truncate (fl64 (real_of_int (- qx1 r) / screenRatio (primaryScreen w)));
               y = truncate (fl64 (real_of_int (- qy1 r) / screenRatio (primaryScreen w)))
           in Some ((True, grabWindow w x y (width g) (height g)),
                    evs @ [GrabWindow x y (width g) (height g)])))"

subsection \<open>Vocabulary of the properties\<close>

text \<open>An array entry that the loop over the monitors passes over.\<close>

fun skipped :: "json \<Rightarrow> bool" where
  "skipped (JObj obj) \<longleftrightarrow>
     toDouble obj ''width'' 0 \<le> 0 \<or> toDouble obj ''height'' 0 \<le> 0 \<or> toDouble obj ''scale'' 1 \<le> 0"
| "skipped v \<longleftrightarrow> True"

text \<open>
  A backend shows in the events by its first action: the permission-broker
  backend asks the bus for the service, the helper-tool backend starts grim.
\<close>

fun isPortalEvent :: "event \<Rightarrow> bool" where
  "isPortalEvent (IsServiceRegistered s) = True"
| "isPortalEvent e = False"

fun isGrimEvent :: "event \<Rightarrow> bool" where
  "isGrimEvent (ProcessStart prog args) = (prog = ''grim'')"
| "isGrimEvent e = False"

definition portalInvoked :: "event list \<Rightarrow> bool" where
  "portalInvoked evs = list_ex isPortalEvent evs"

definition grimInvoked :: "event list \<Rightarrow> bool" where
  "grimInvoked evs = list_ex isGrimEvent evs"

text \<open>
  The four edges of a screen in logical pixels: its left and top corner and the
  edge just past its right and bottom corner, each divided by the screen's ratio.
\<close>

definition logicalLeft :: "QScreen \<Rightarrow> real" where
  "logicalLeft s = real_of_int (qx1 (geometry s)) / screenRatio s"

definition logicalTop :: "QScreen \<Rightarrow> real" where
  "logicalTop s = real_of_int (qy1 (geometry s)) / screenRatio s"

definition logicalRight :: "QScreen \<Rightarrow> real" where
  "logicalRight s = real_of_int (qx2 (geometry s) + 1) / screenRatio s"

definition logicalBottom :: "QScreen \<Rightarrow> real" where
  "logicalBottom s = real_of_int (qy2 (geometry s) + 1) / screenRatio s"

text \<open>A screen with a positive width and height.\<close>

definition validScreen :: "QScreen \<Rightarrow> bool" where
  "validScreen s \<longleftrightarrow> qx1 (geometry s) \<le> qx2 (geometry s) \<and> qy1 (geometry s) \<le> qy2 (geometry s)"

text \<open>
  A screen within the range the numerical statements are made for: coordinates of
  at most \<open>2 ^ 20\<close> in magnitude and a ratio between \<open>2 ^ -10\<close> and \<open>2 ^ 10\<close>.
\<close>

definition boundedScreen :: "QScreen \<Rightarrow> bool" where
  "boundedScreen s \<longleftrightarrow>
     \<bar>qx1 (geometry s)\<bar> \<le> 2 ^ 20 \<and> \<bar>qy1 (geometry s)\<bar> \<le> 2 ^ 20 \<and>
     \<bar>qx2 (geometry s)\<bar> \<le> 2 ^ 20 \<and> \<bar>qy2 (geometry s)\<bar> \<le> 2 ^ 20 \<and>
     1 / 2 ^ 10 \<le> screenRatio s \<and> screenRatio s \<le> 2 ^ 10"

text \<open>A real that is a whole number; a screen whose four logical edges are whole.\<close>

definition isWhole :: "real \<Rightarrow> bool" where
  "isWhole v \<longleftrightarrow> real_of_int \<lfloor>v\<rfloor> = v"

definition wholeScreen :: "QScreen \<Rightarrow> bool" where
  "wholeScreen s \<longleftrightarrow>
     isWhole (logicalLeft s) \<and> isWhole (logicalTop s) \<and>
     isWhole (logicalRight s) \<and> isWhole (logicalBottom s)"

text \<open>
  For a monitor entry of the Hyprland query that is not passed over: the two
  rectangles the loop unites, its scale, whether its position and size are whole
  numbers, and whether they are at most \<open>2 ^ 20\<close> in magnitude.
\<close>

fun physicalRect :: "json \<Rightarrow> QRect" where
  "physicalRect (JObj obj) =
     mkRect (toInt (toDouble obj ''x'' 0)) (toInt (toDouble obj ''y'' 0))
            (toInt (toDouble obj ''width'' 0)) (toInt (toDouble obj ''height'' 0))"
| "physicalRect v = nullRect"

fun logicalRect :: "json \<Rightarrow> QRect" where
  "logicalRect (JObj obj) =
     mkRect (toInt (fl64 (toDouble obj ''x'' 0 / toDouble obj ''scale'' 1)))
            (toInt (fl64 (toDouble obj ''y'' 0 / toDouble obj ''scale'' 1)))
            (toInt (fl64 (toDouble obj ''width'' 0 / toDouble obj ''scale'' 1)))
            (toInt (fl64 (toDouble obj ''height'' 0 / toDouble obj ''scale'' 1)))"
| "logicalRect v = nullRect"




subsection \<open>The union along one axis\<close>

text \<open>
  When both operands have positive extents, \<^verbatim>\<open>QRectF::operator|\<close> treats the two
  axes alike and apart. On one axis an operand is its edge and its extent;
  \<open>stepSpan\<close> is what the operator computes from two of them: the smaller edge, and
  the rounded difference between the larger of the two rounded far edges and that
  edge.
\<close>

definition stepSpan :: "real \<times> real \<Rightarrow> real \<times> real \<Rightarrow> real \<times> real" where
  "stepSpan a r =
     (min (fst a) (fst r),
      fl64 (max (fl64 (fst a + snd a)) (fl64 (fst r + snd r)) - min (fst a) (fst r)))"

text \<open>The edge and extent that \<^verbatim>\<open>logicalDesktopGeometry\<close> computes for a screen.\<close>

definition spanOf :: "int \<Rightarrow> int \<Rightarrow> real \<Rightarrow> real \<times> real" where
  "spanOf a n d = (fl64 (real_of_int a / d), fl64 (real_of_int n / d))"

definition xspan :: "QScreen \<Rightarrow> real \<times> real" where
  "xspan s = spanOf (qx1 (geometry s)) (width (geometry s)) (screenRatio s)"

definition yspan :: "QScreen \<Rightarrow> real \<times> real" where
  "yspan s = spanOf (qy1 (geometry s)) (height (geometry s)) (screenRatio s)"

text \<open>
  The bounds kept along the loop, with \<open>2 ^ -21\<close> the largest rounding error of a
  double below \<open>2 ^ 33\<close>: the span of a screen ends within two errors of its exact far
  edge \<open>v\<close>; the span accumulated from \<open>k + 1\<close> screens ends within \<open>2 (k + 1)\<close> errors
  of the largest exact far edge \<open>m\<close>. Both have a positive extent.
\<close>

definition spanRect :: "real \<Rightarrow> real \<times> real \<Rightarrow> bool" where
  "spanRect v r \<longleftrightarrow>
     - (2 ^ 31) \<le> fst r \<and> 3 / 2 ^ 21 \<le> snd r \<and>
     \<bar>fst r + snd r - v\<bar> \<le> 2 / 2 ^ 21 \<and> v \<le> 2 ^ 31"

definition spanInv :: "nat \<Rightarrow> real \<Rightarrow> real \<times> real \<Rightarrow> bool" where
  "spanInv k m a \<longleftrightarrow>
     - (2 ^ 31) \<le> fst a \<and> 1 / 2 ^ 21 \<le> snd a \<and>
     \<bar>fst a + snd a - m\<bar> \<le> 2 * (real k + 1) / 2 ^ 21 \<and> m \<le> 2 ^ 31"

subsection \<open>Concrete surroundings\<close>

definition baseWorld :: world where
  "baseWorld =
     \<lparr> waylandDetected = False, windowManager = OTHER, useGrimAdapter = False,
       disabledGrimWarning = False, screens = [], appDevicePixelRatio = 1,
       hyprctl = FailedToStart, hyprctlOutput = ParseFailed [], grim = FailedToStart,
       xdgRuntimeDir = ''/run/user/1000'', loadPixmap = (\<lambda>p. NullPixmap),
       serviceRegistered = False, baseService = '':1.42'', uuid = ''{ab-cd}'',
       busEvents = (\<lambda>i. OtherEvent), toLocalFile = drop 7,
       primaryScreen = \<lparr> geometry = mkRect 0 0 0 0, screenRatio = 1 \<rparr>,
       grabWindow = (\<lambda>x y w h. NullPixmap) \<rparr>"

text \<open>Output A at (0,0), 1920 by 1080, ratio 1; output B at (1920,0), 2560 by 1440, ratio 1.25.\<close>

definition twoOutputs :: "QScreen list" where
  "twoOutputs =
     [\<lparr> geometry = mkRect 0 0 1920 1080, screenRatio = 1 \<rparr>,
      \<lparr> geometry = mkRect 1920 0 2560 1440, screenRatio = 1.25 \<rparr>]"

text \<open>One output of 2000 by 2000 pixels at ratio 2: the logical desktop is 1000 by 1000.\<close>

definition hidpiWorld :: world where
  "hidpiWorld =
     baseWorld \<lparr> screens := [\<lparr> geometry = mkRect 0 0 2000 2000, screenRatio = 2 \<rparr>],
                 appDevicePixelRatio := 2 \<rparr>"

text \<open>A Wayland session with the helper tool preferred, where grim exits with code 1.\<close>

definition grimExit1World :: world where
  "grimExit1World =
     baseWorld \<lparr> waylandDetected := True, windowManager := WLROOTS,
                 useGrimAdapter := True, grim := Exited 1 \<rparr>"

text \<open>A Hyprland session under Wayland where hyprctl prints the array \<open>vs\<close>.\<close>

definition hyprWorld :: "json list \<Rightarrow> world" where
  "hyprWorld vs =
     baseWorld \<lparr> waylandDetected := True, windowManager := HYPRLAND,
                 hyprctl := Exited 0, hyprctlOutput := Parsed (JArr vs) \<rparr>"

text \<open>A Hyprland session where hyprctl does not answer within its second.\<close>

definition hyprTimeoutWorld :: world where
  "hyprTimeoutWorld =
     baseWorld \<lparr> waylandDetected := True, windowManager := HYPRLAND, hyprctl := TimedOut,
                 screens := twoOutputs \<rparr>"

definition monitorA :: json where
  "monitorA =
     JObj [(''width'', JNum 1920), (''height'', JNum 1080), (''x'', JNum 0), (''y'', JNum 0),
           (''scale'', JNum 1.5)]"

definition monitorZero :: json where
  "monitorZero =
     JObj [(''width'', JNum 2560), (''height'', JNum 1440), (''x'', JNum 1920), (''y'', JNum 0),
           (''scale'', JNum 0)]"

text \<open>The actions of \<^verbatim>\<open>freeDesktopPortal\<close> up to the start of its event loop.\<close>

definition portalPrologue :: "world \<Rightarrow> event list" where
  "portalPrologue w =
     [IsServiceRegistered service, RequestNew (requestPath w), Connect,
      BusCall ''Screenshot'' [] [(''handle_token'', token w), (''interactive'', ''false'')],
      LoopExec]"

text \<open>A GNOME session whose broker is registered and never answers.\<close>

definition silentWorld :: world where
  "silentWorld =
     baseWorld \<lparr> waylandDetected := True, windowManager := GNOME, serviceRegistered := True \<rparr>"

text \<open>A KDE session whose broker answers the third event with status 0 and a file.\<close>

definition respondingWorld :: world where
  "respondingWorld =
     baseWorld \<lparr> waylandDetected := True, windowManager := KDE, serviceRegistered := True,
       busEvents :=
         (\<lambda>i. if i = 2 then Response 0 [(''uri'', ''file:///tmp/shot.png'')] else OtherEvent),
       loadPixmap :=
         (\<lambda>p. if p = ''/tmp/shot.png'' then Pixmap 1920 1080 (Finite 1) 42 else NullPixmap),
       screens := [\<lparr> geometry = mkRect 0 0 1920 1080, screenRatio = 1 \<rparr>] \<rparr>"

text \<open>A COSMIC session whose broker answers the second event with status 2.\<close>

definition decliningWorld :: world where
  "decliningWorld =
     baseWorld \<lparr> waylandDetected := True, windowManager := COSMIC, serviceRegistered := True,
       busEvents := (\<lambda>i. if i = 1 then Response 2 [] else OtherEvent) \<rparr>"

text \<open>A Wayland session whose window manager is not classified.\<close>

definition noneWorld :: world where
  "noneWorld = baseWorld \<lparr> waylandDetected := True, windowManager := NONE_DETECTED \<rparr>"

text \<open>An X11 session with the outputs A and B.\<close>

definition twoOutputsWorld :: world where
  "twoOutputsWorld = baseWorld \<lparr> screens := twoOutputs \<rparr>"



text \<open>Two outputs: 2560 by 1440 at (-2560,0) with ratio 1.5, and 1920 by 1080 at (0,0) with ratio 1.\<close>

definition fractionalWorld :: world where
  "fractionalWorld =
     baseWorld \<lparr> screens :=
       [\<lparr> geometry = mkRect (- 2560) 0 2560 1440, screenRatio = 3 / 2 \<rparr>,
        \<lparr> geometry = mkRect 0 0 1920 1080, screenRatio = 1 \<rparr>] \<rparr>"

section \<open>Properties\<close>

subsection \<open>Shared facts\<close>

text \<open>The rounding function: its error, and the integers it cannot cross.\<close>

lemma expoUp_bounds: "1 \<le> x \<Longrightarrow> 0 \<le> expoUp x \<and> 2 powi expoUp x \<le> x \<and> x < 2 powi (expoUp x + 1)"
proof (induction x rule: expoUp.induct)
  case (1 x)
  show ?case
  proof (cases "x < 2")
    case True
    with 1(2) show ?thesis by (subst (1 2 3) expoUp.simps) simp
  next
    case False
    then have "1 \<le> x / 2" by simp
    from 1(1) [OF False this] have ih: "0 \<le> expoUp (x / 2)" "2 powi expoUp (x / 2) \<le> x / 2"
      "x / 2 < 2 powi (expoUp (x / 2) + 1)" by simp_all
    have e: "expoUp x = expoUp (x / 2) + 1" using False by (subst expoUp.simps) simp
    from ih show ?thesis unfolding e by (simp add: power_int_add)
  qed
qed

lemma expoDown_bounds:
  "0 < x \<Longrightarrow> x < 1 \<Longrightarrow> expoDown x < 0 \<and> 2 powi expoDown x \<le> x \<and> x < 2 powi (expoDown x + 1)"
proof (induction x rule: expoDown.induct)
  case (1 x)
  have e: "expoDown x = expoDown (2 * x) - 1" using 1(2,3) by (subst expoDown.simps) simp
  have c: "\<not> (1 \<le> x \<or> x \<le> 0)" using 1(2,3) by simp
  show ?case
  proof (cases "2 * x < 1")
    case True
    from 1(1) [OF c _ True] 1(2) have ih: "expoDown (2 * x) < 0" "2 powi expoDown (2 * x) \<le> 2 * x"
      "2 * x < 2 powi (expoDown (2 * x) + 1)" by simp_all
    from ih show ?thesis unfolding e by (simp add: power_int_diff power_int_add)
  next
    case False
    then have "expoDown (2 * x) = 0" by (subst expoDown.simps) simp
    with False 1(2,3) show ?thesis unfolding e by simp
  qed
qed

lemma expo_bounds:
  assumes "x \<noteq> 0"
  shows "2 powi expo x \<le> \<bar>x\<bar> \<and> \<bar>x\<bar> < 2 powi (expo x + 1)"
proof (cases "1 \<le> \<bar>x\<bar>")
  case True
  with expoUp_bounds [of "\<bar>x\<bar>"] show ?thesis by (simp add: expo_def)
next
  case False
  with assms expoDown_bounds [of "\<bar>x\<bar>"] show ?thesis by (simp add: expo_def)
qed

lemma rne_ge: "real_of_int M \<le> y \<Longrightarrow> M \<le> rne y"
proof -
  assume "real_of_int M \<le> y"
  then have "M \<le> \<lfloor>y\<rfloor>" by (simp add: le_floor_iff)
  then show ?thesis by (auto simp: rne_def Let_def)
qed

lemma rne_le: "y \<le> real_of_int M \<Longrightarrow> rne y \<le> M"
proof -
  assume a: "y \<le> real_of_int M"
  show ?thesis
  proof (cases "y = real_of_int M")
    case True
    then show ?thesis by (simp add: rne_def)
  next
    case False
    with a have "y < real_of_int M" by simp
    then have "\<lfloor>y\<rfloor> < M" by (simp add: floor_less_iff)
    then show ?thesis by (auto simp: rne_def Let_def)
  qed
qed

lemma rne_error: "\<bar>real_of_int (rne y) - y\<bar> \<le> 1 / 2"
  unfolding rne_def Let_def by (auto simp: abs_le_iff)

lemma ulp_pos: "0 < ulp p emin x"
  by (simp add: ulp_def)

lemma fl_error: "\<bar>fl p emin x - x\<bar> \<le> ulp p emin x / 2"
proof (cases "x = 0")
  case True
  then show ?thesis using ulp_pos [of p emin x] by (simp add: fl_def)
next
  case False
  let ?u = "ulp p emin x"
  have u: "0 < ?u" by (rule ulp_pos)
  have "fl p emin x - x = (real_of_int (rne (x / ?u)) - x / ?u) * ?u"
    using False u by (simp add: fl_def algebra_simps)
  then have "\<bar>fl p emin x - x\<bar> = \<bar>real_of_int (rne (x / ?u)) - x / ?u\<bar> * ?u"
    using u by (simp add: abs_mult)
  also have "\<dots> \<le> (1 / 2) * ?u"
    using rne_error [of "x / ?u"] u by (intro mult_right_mono) simp_all
  finally show ?thesis by simp
qed

lemma pow2_less_exp:
  assumes "(2::real) powi m < 2 powi n"
  shows "m < n"
proof (rule ccontr)
  assume "\<not> m < n"
  then have "n \<le> m" by simp
  then have "(2::real) powi n \<le> 2 powi m" by (intro power_int_increasing) simp_all
  with assms show False by simp
qed

lemma expo_le:
  assumes "x \<noteq> 0" "\<bar>x\<bar> < 2 powi (E + 1)"
  shows "expo x \<le> E"
proof -
  from expo_bounds [OF assms(1)] assms(2) have "(2::real) powi expo x < 2 powi (E + 1)" by linarith
  then have "expo x < E + 1" by (rule pow2_less_exp)
  then show ?thesis by simp
qed

lemma expo_ge:
  assumes "x \<noteq> 0" "2 powi E \<le> \<bar>x\<bar>"
  shows "E \<le> expo x"
proof -
  from expo_bounds [OF assms(1)] assms(2) have "(2::real) powi E < 2 powi (expo x + 1)" by linarith
  then have "E < expo x + 1" by (rule pow2_less_exp)
  then show ?thesis by simp
qed

lemma pow2_le_abs_nz:
  assumes "2 powi e \<le> \<bar>x::real\<bar>"
  shows "x \<noteq> 0"
proof
  assume "x = 0"
  with assms have "(2::real) powi e \<le> 0" by simp
  moreover have "(0::real) < 2 powi e" by (rule zero_less_power_int) simp
  ultimately show False by linarith
qed

lemma expo_eq:
  assumes "2 powi E \<le> \<bar>x\<bar>" "\<bar>x\<bar> < 2 powi (E + 1)"
  shows "expo x = E"
proof -
  have "x \<noteq> 0"
  proof
    assume "x = 0"
    with assms(1) have "(2::real) powi E \<le> 0" by simp
    moreover have "(0::real) < 2 powi E" by (rule zero_less_power_int) simp
    ultimately show False by linarith
  qed
  from expo_le [OF this assms(2)] expo_ge [OF this assms(1)] show ?thesis by simp
qed

lemma ulp_le:
  assumes "x \<noteq> 0" "\<bar>x\<bar> < 2 powi (E + 1)" "emin \<le> E"
  shows "ulp p emin x \<le> 2 powi (E - (p - 1))"
proof -
  from expo_le [OF assms(1,2)] assms(3) have "max (expo x) emin - (p - 1) \<le> E - (p - 1)" by simp
  then show ?thesis unfolding ulp_def by (intro power_int_increasing) simp_all
qed

lemma fl64_error:
  assumes "\<bar>x\<bar> < 2 ^ 33"
  shows "\<bar>fl64 x - x\<bar> \<le> 1 / 2 ^ 21"
proof (cases "x = 0")
  case True
  then show ?thesis by (simp add: fl64_def fl_def)
next
  case False
  from assms have "\<bar>x\<bar> < 2 powi (32 + 1)" by simp
  from ulp_le [OF False this, of "- 1022" 53] have "ulp 53 (- 1022) x \<le> 2 powi (- 20)" by simp
  with fl_error [of 53 "- 1022" x] show ?thesis
    by (simp add: fl64_def power_int_minus_divide)
qed

lemma fl_barrier:
  assumes "\<bar>x\<bar> < 2 powi p" "emin \<le> p - 1"
  shows "(real_of_int n \<le> x \<longrightarrow> real_of_int n \<le> fl p emin x)
       \<and> (x \<le> real_of_int n \<longrightarrow> fl p emin x \<le> real_of_int n)"
proof (cases "x = 0")
  case True
  then show ?thesis by (simp add: fl_def)
next
  case False
  define k where "k = max (expo x) emin - (p - 1)"
  define u where "u = ulp p emin x"
  have u: "u = 2 powi k" "0 < u" by (simp_all add: u_def k_def ulp_def)
  from assms(1) have "\<bar>x\<bar> < 2 powi ((p - 1) + 1)" by simp
  from expo_le [OF False this] assms(2) have k0: "k \<le> 0" by (simp add: k_def)
  define M where "M = n * 2 ^ nat (- k)"
  have "real_of_int M * u = real_of_int n * (2 ^ nat (- k) * 2 powi k)"
    by (simp add: M_def u)
  also have "(2::real) ^ nat (- k) = 2 powi (- k)" using k0 by (simp add: power_int_def)
  also have "(2::real) powi (- k) * 2 powi k = 1" by (simp add: power_int_minus)
  finally have Mu: "real_of_int M * u = real_of_int n" by simp
  then have nM: "real_of_int n / u = real_of_int M" using u(2) by (simp add: field_simps)
  have f: "fl p emin x = real_of_int (rne (x / u)) * u" using False by (simp add: fl_def u_def)
  show ?thesis
  proof (intro conjI impI)
    assume "real_of_int n \<le> x"
    then have "real_of_int M \<le> x / u" using u(2) nM [symmetric] by (simp add: divide_right_mono)
    then have "M \<le> rne (x / u)" by (rule rne_ge)
    then have "real_of_int M * u \<le> real_of_int (rne (x / u)) * u"
      using u(2) by (intro mult_right_mono) simp_all
    then show "real_of_int n \<le> fl p emin x" by (simp add: f Mu)
  next
    assume "x \<le> real_of_int n"
    then have "x / u \<le> real_of_int M" using u(2) nM [symmetric] by (simp add: divide_right_mono)
    then have "rne (x / u) \<le> M" by (rule rne_le)
    then have "real_of_int (rne (x / u)) * u \<le> real_of_int M * u"
      using u(2) by (intro mult_right_mono) simp_all
    then show "fl p emin x \<le> real_of_int n" by (simp add: f Mu)
  qed
qed

lemma fl64_barrier:
  assumes "\<bar>x\<bar> < 2 ^ 53"
  shows "real_of_int n \<le> x \<Longrightarrow> real_of_int n \<le> fl64 x"
    and "x \<le> real_of_int n \<Longrightarrow> fl64 x \<le> real_of_int n"
proof -
  from assms have "\<bar>x\<bar> < 2 powi 53" by simp
  from fl_barrier [OF this, of "- 1022" n]
  show "real_of_int n \<le> x \<Longrightarrow> real_of_int n \<le> fl64 x"
    and "x \<le> real_of_int n \<Longrightarrow> fl64 x \<le> real_of_int n" by (simp_all add: fl64_def)
qed

lemma fl64_of_int:
  assumes "\<bar>n\<bar> < 2 ^ 53"
  shows "fl64 (real_of_int n) = real_of_int n"
proof -
  from assms have "\<bar>real_of_int n\<bar> < 2 ^ 53"
    by (metis of_int_abs of_int_less_numeral_power_cancel_iff)
  from fl64_barrier [OF this, of n] show ?thesis by (intro antisym) simp_all
qed

lemma fl32_of_int:
  assumes "\<bar>n\<bar> < 2 ^ 24"
  shows "fl32 (real_of_int n) = real_of_int n"
proof -
  from assms have "\<bar>real_of_int n\<bar> < 2 ^ 24"
    by (metis of_int_abs of_int_less_numeral_power_cancel_iff)
  then have "\<bar>real_of_int n\<bar> < 2 powi 24" by simp
  from fl_barrier [OF this, of "- 126" n] show ?thesis by (intro antisym) (simp_all add: fl32_def)
qed

lemma fl_at:
  assumes "2 powi e \<le> \<bar>x\<bar>" "\<bar>x\<bar> < 2 powi (e + 1)"
  shows "fl p emin x =
           real_of_int (rne (x / 2 powi (max e emin - (p - 1)))) * 2 powi (max e emin - (p - 1))"
proof -
  from assms(1) have "x \<noteq> 0" by (rule pow2_le_abs_nz)
  with expo_eq [OF assms] show ?thesis by (simp add: fl_def ulp_def)
qed

lemma fl32_relative:
  assumes "1 / 2 ^ 126 \<le> \<bar>x\<bar>"
  shows "\<bar>fl32 x - x\<bar> \<le> \<bar>x\<bar> / 2 ^ 24"
proof -
  from assms have a: "2 powi (- 126) \<le> \<bar>x\<bar>" by (simp add: power_int_minus_divide)
  from a have nz: "x \<noteq> 0" by (rule pow2_le_abs_nz)
  from expo_ge [OF nz a] have "max (expo x) (- 126) = expo x" by simp
  then have "ulp 24 (- 126) x = 2 powi (expo x - 23)" by (simp add: ulp_def)
  also have "\<dots> = 2 powi expo x / 2 ^ 23" by (simp add: power_int_diff)
  finally have "ulp 24 (- 126) x / 2 = 2 powi expo x / 2 ^ 24" by simp
  also have "\<dots> \<le> \<bar>x\<bar> / 2 ^ 24"
    using expo_bounds [OF nz] by (simp add: divide_right_mono)
  finally show ?thesis using fl_error [of 24 "- 126" x] by (simp add: fl32_def)
qed

lemma fl64_zero [simp]: "fl64 0 = 0"
  by (simp add: fl64_def fl_def)

lemma fl64_one [simp]: "fl64 1 = 1"
  using fl64_of_int [of 1] by simp

lemma fl64_numeral [simp]: "(numeral k :: int) < 2 ^ 53 \<Longrightarrow> fl64 (numeral k) = numeral k"
  using fl64_of_int [of "numeral k"] by simp

lemma fl64_neg_numeral [simp]:
  "(numeral k :: int) < 2 ^ 53 \<Longrightarrow> fl64 (- numeral k) = - numeral k"
  using fl64_of_int [of "- numeral k"] by simp

lemma fl32_numeral [simp]: "(numeral k :: int) < 2 ^ 24 \<Longrightarrow> fl32 (numeral k) = numeral k"
  using fl32_of_int [of "numeral k"] by simp

lemma fl32_quotient:
  assumes n: "\<bar>n\<bar> < 2 ^ 24" and d: "\<bar>d\<bar> < 2 ^ 24" and d0: "d \<noteq> 0"
  shows "fdiv n d = Finite (fl32 (real_of_int n / real_of_int d))"
    and "\<bar>fl32 (real_of_int n / real_of_int d) - real_of_int n / real_of_int d\<bar>
           \<le> \<bar>real_of_int n / real_of_int d\<bar> / 2 ^ 24"
proof -
  show "fdiv n d = Finite (fl32 (real_of_int n / real_of_int d))"
    using n d d0 by (simp add: fdiv_def fl32_of_int)
  show "\<bar>fl32 (real_of_int n / real_of_int d) - real_of_int n / real_of_int d\<bar>
           \<le> \<bar>real_of_int n / real_of_int d\<bar> / 2 ^ 24"
  proof (cases "n = 0")
    case True
    then show ?thesis by (simp add: fl32_def fl_def)
  next
    case False
    then have n1: "1 \<le> \<bar>real_of_int n\<bar>" by linarith
    from d d0 have d1: "0 < \<bar>real_of_int d\<bar>" "\<bar>real_of_int d\<bar> \<le> 2 ^ 24" by simp_all
    have "1 / 2 ^ 24 \<le> 1 / \<bar>real_of_int d\<bar>"
      using d1 by (intro divide_left_mono) simp_all
    also have "\<dots> \<le> \<bar>real_of_int n\<bar> / \<bar>real_of_int d\<bar>"
      using n1 d1 by (intro divide_right_mono) simp_all
    finally have "1 / 2 ^ 24 \<le> \<bar>real_of_int n / real_of_int d\<bar>" by simp
    moreover have "(1::real) / 2 ^ 126 \<le> 1 / 2 ^ 24" by simp
    ultimately have "1 / 2 ^ 126 \<le> \<bar>real_of_int n / real_of_int d\<bar>" by linarith
    then show ?thesis by (rule fl32_relative)
  qed
qed

lemma fl32_eval_11_10: "fl32 (11 / 10) = 9227469 / 8388608"
proof -
  have "fl32 (11 / 10) = real_of_int (rne ((11 / 10) / 2 powi (max 0 (- 126) - (24 - 1))))
      * 2 powi (max 0 (- 126) - (24 - 1))"
    unfolding fl32_def by (rule fl_at) simp_all
  then show ?thesis by (simp add: rne_def power_int_minus_divide)
qed

lemma fl64_at:
  assumes "2 powi e \<le> \<bar>x\<bar>" "\<bar>x\<bar> < 2 powi (e + 1)" "- 1022 \<le> e"
  shows "fl64 x = real_of_int (rne (x / 2 powi (e - 52))) * 2 powi (e - 52)"
proof -
  from assms(3) have "max e (- 1022) - (53 - 1) = e - 52" by simp
  with fl_at [OF assms(1,2), of 53 "- 1022"] show ?thesis by (simp add: fl64_def)
qed

lemma fl64_values:
  "fl64 (4 / 3) = 6004799503160661 / 4503599627370496"
  "fl64 (- (4 / 3)) = - (6004799503160661 / 4503599627370496)"
  "fl64 (9224873236730565973 / 4503599627370496) = 4504332635122347 / 2199023255552"
  "fl64 (9218868437227405995 / 4503599627370496) = 9002801208229889 / 4398046511104"
  "fl64 (5120 / 3) = 7505999378950827 / 4398046511104"
  "fl64 (- (5120 / 3)) = - (7505999378950827 / 4398046511104)"
  "fl64 (15950248680270507 / 4398046511104) = 3987562170067627 / 1099511627776"
  "fl64 (8444249301319681 / 4398046511104) = 8444249301319681 / 4398046511104"
proof -
  show "fl64 (4 / 3) = 6004799503160661 / 4503599627370496"
    by (subst fl64_at [where e = 0]) (simp_all add: rne_def power_int_minus_divide)
  show "fl64 (- (4 / 3)) = - (6004799503160661 / 4503599627370496)"
    by (subst fl64_at [where e = 0]) (simp_all add: rne_def power_int_minus_divide)
  show "fl64 (9224873236730565973 / 4503599627370496) = 4504332635122347 / 2199023255552"
    by (subst fl64_at [where e = 11]) (simp_all add: rne_def power_int_minus_divide)
  show "fl64 (9218868437227405995 / 4503599627370496) = 9002801208229889 / 4398046511104"
    by (subst fl64_at [where e = 10]) (simp_all add: rne_def power_int_minus_divide)
  show "fl64 (5120 / 3) = 7505999378950827 / 4398046511104"
    by (subst fl64_at [where e = 10]) (simp_all add: rne_def power_int_minus_divide)
  show "fl64 (- (5120 / 3)) = - (7505999378950827 / 4398046511104)"
    by (subst fl64_at [where e = 10]) (simp_all add: rne_def power_int_minus_divide)
  show "fl64 (15950248680270507 / 4398046511104) = 3987562170067627 / 1099511627776"
    by (subst fl64_at [where e = 11]) (simp_all add: rne_def power_int_minus_divide)
  show "fl64 (8444249301319681 / 4398046511104) = 8444249301319681 / 4398046511104"
    by (subst fl64_at [where e = 10]) (simp_all add: rne_def power_int_minus_divide)
qed


lemma monitorsLoop_filter:
  "monitorsLoop vs pu lu g = monitorsLoop (filter (\<lambda>v. \<not> skipped v) vs) pu lu g"
  by (induction vs pu lu g rule: monitorsLoop.induct) (simp_all add: Let_def)

lemma monitorsLoop_gotMonitor:
  "snd (snd (monitorsLoop vs pu lu g)) \<longleftrightarrow> g \<or> (\<exists>v\<in>set vs. \<not> skipped v)"
  by (induction vs pu lu g rule: monitorsLoop.induct) (simp_all add: Let_def)

lemma hidpi_physical: "desktopGeometry hidpiWorld = (mkRect 0 0 2000 2000, [])"
  by (simp add: desktopGeometry_def hyprlandDesktopGeometries_def hidpiWorld_def baseWorld_def
      united_def isNull_def nullRect_def mkRect_def)

lemma hidpi_logical: "logicalDesktopGeometry hidpiWorld = (mkRect 0 0 1000 1000, [])"
  by (simp add: logicalDesktopGeometry_def hyprlandDesktopGeometries_def hidpiWorld_def
      baseWorld_def unitedF_def isNullF_def nullRectF_def mkRect_def toAlignedRect_def
      width_def height_def)

text \<open>The two loops over the screens compute bounding boxes.\<close>

lemma hyprland_false_generic:
  assumes "fst (fst (hyprlandDesktopGeometries w nullRect nullRect)) = False"
  shows "fst (desktopGeometry w) = physicalLoop (screens w) nullRect
       \<and> fst (logicalDesktopGeometry w) = toAlignedRect (logicalLoop (screens w) nullRectF)"
  using assms
  by (auto simp: desktopGeometry_def logicalDesktopGeometry_def split: prod.splits bool.splits)

lemma monitorsLoop_all_skipped:
  assumes "\<forall>v\<in>set vs. skipped v"
  shows "monitorsLoop vs pu lu g = (pu, lu, g)"
proof -
  from assms have "filter (\<lambda>v. \<not> skipped v) vs = []" by (simp add: filter_empty_conv)
  with monitorsLoop_filter [of vs pu lu g] show ?thesis by simp
qed

lemma twoOutputs_physical: "physicalLoop twoOutputs nullRect = mkRect 0 0 4480 1440"
  by (simp add: twoOutputs_def united_def isNull_def nullRect_def mkRect_def)

lemma twoOutputs_logical: "toAlignedRect (logicalLoop twoOutputs nullRectF) = mkRect 0 0 3584 1152"
  by (simp add: twoOutputs_def unitedF_def isNullF_def nullRectF_def mkRect_def
      toAlignedRect_def width_def height_def Let_def)

lemma Min_insert_min:
  fixes a b :: "'a::linorder"
  assumes "finite X"
  shows "Min (insert (min a b) X) = Min (insert a (insert b X))"
proof (cases "X = {}")
  case True
  then show ?thesis by (simp add: min.commute)
next
  case False
  with assms show ?thesis by (simp add: min.assoc)
qed

lemma Max_insert_max:
  fixes a b :: "'a::linorder"
  assumes "finite X"
  shows "Max (insert (max a b) X) = Max (insert a (insert b X))"
proof (cases "X = {}")
  case True
  then show ?thesis by (simp add: max.commute)
next
  case False
  with assms show ?thesis by (simp add: max.assoc)
qed

lemma united_valid:
  assumes "qx1 a \<le> qx2 a" "qy1 a \<le> qy2 a" "qx1 r \<le> qx2 r" "qy1 r \<le> qy2 r"
  shows "united a r =
     QRect (min (qx1 a) (qx1 r)) (min (qy1 a) (qy1 r)) (max (qx2 a) (qx2 r)) (max (qy2 a) (qy2 r))"
  using assms by (simp add: united_def isNull_def Let_def)

lemma united_nullRect: "united nullRect r = r"
  by (simp add: united_def isNull_def nullRect_def)

lemma foldl_united_acc:
  assumes "qx1 g \<le> qx2 g" "qy1 g \<le> qy2 g"
    and "\<forall>r\<in>set rs. qx1 r \<le> qx2 r \<and> qy1 r \<le> qy2 r"
  shows "foldl united g rs =
     QRect (Min (insert (qx1 g) (qx1 ` set rs))) (Min (insert (qy1 g) (qy1 ` set rs)))
           (Max (insert (qx2 g) (qx2 ` set rs))) (Max (insert (qy2 g) (qy2 ` set rs)))"
  using assms
proof (induction rs arbitrary: g)
  case Nil
  then show ?case by simp
next
  case (Cons r rs)
  let ?g = "united g r"
  have u: "?g = QRect (min (qx1 g) (qx1 r)) (min (qy1 g) (qy1 r))
                      (max (qx2 g) (qx2 r)) (max (qy2 g) (qy2 r))"
    using Cons.prems by (intro united_valid) auto
  have v: "qx1 ?g \<le> qx2 ?g" "qy1 ?g \<le> qy2 ?g"
    using Cons.prems by (auto simp: u)
  have rest: "\<forall>r\<in>set rs. qx1 r \<le> qx2 r \<and> qy1 r \<le> qy2 r"
    using Cons.prems by simp
  have "foldl united g (r # rs) = foldl united ?g rs" by simp
  also note Cons.IH [OF v rest]
  finally show ?case by (simp add: u Min_insert_min Max_insert_max)
qed

lemma foldl_united_bbox:
  assumes "rs \<noteq> []" and "\<forall>r\<in>set rs. qx1 r \<le> qx2 r \<and> qy1 r \<le> qy2 r"
  shows "foldl united nullRect rs =
     QRect (Min (qx1 ` set rs)) (Min (qy1 ` set rs)) (Max (qx2 ` set rs)) (Max (qy2 ` set rs))"
proof (cases rs)
  case Nil
  with assms show ?thesis by simp
next
  case (Cons r rs')
  with assms(2) have "foldl united r rs' =
     QRect (Min (insert (qx1 r) (qx1 ` set rs'))) (Min (insert (qy1 r) (qy1 ` set rs')))
           (Max (insert (qx2 r) (qx2 ` set rs'))) (Max (insert (qy2 r) (qy2 ` set rs')))"
    by (intro foldl_united_acc) auto
  with Cons show ?thesis by (simp add: united_nullRect)
qed

lemma physicalLoop_fold: "physicalLoop ss g = foldl united g (map geometry ss)"
  by (induction ss arbitrary: g) simp_all

lemma physicalLoop_bbox:
  assumes "ss \<noteq> []"
    and "\<forall>s\<in>set ss. qx1 (geometry s) \<le> qx2 (geometry s) \<and> qy1 (geometry s) \<le> qy2 (geometry s)"
  shows "physicalLoop ss nullRect =
     QRect (Min ((\<lambda>s. qx1 (geometry s)) ` set ss))
           (Min ((\<lambda>s. qy1 (geometry s)) ` set ss))
           (Max ((\<lambda>s. qx2 (geometry s)) ` set ss))
           (Max ((\<lambda>s. qy2 (geometry s)) ` set ss))"
proof -
  from assms have "foldl united nullRect (map geometry ss) =
     QRect (Min (qx1 ` set (map geometry ss))) (Min (qy1 ` set (map geometry ss)))
           (Max (qx2 ` set (map geometry ss))) (Max (qy2 ` set (map geometry ss)))"
    by (intro foldl_united_bbox) auto
  then show ?thesis by (simp add: physicalLoop_fold image_image)
qed

lemma unitedF_nullRectF: "unitedF nullRectF r = r"
  by (simp add: unitedF_def isNullF_def nullRectF_def)



text \<open>The logical geometry of the generic path: the loop along one axis, its error, and the exact case.\<close>

lemma spanRect_inv: "spanRect v r \<Longrightarrow> spanInv 0 v r"
  by (simp add: spanRect_def spanInv_def)

lemma stepSpan_inv:
  assumes a: "spanInv k m a" and r: "spanRect v r" and k: "k + 2 \<le> 2 ^ 19"
  shows "spanInv (Suc k) (max m v) (stepSpan a r)"
proof -
  obtain p e where pe: "a = (p, e)" by (cases a)
  obtain q f where qf: "r = (q, f)" by (cases r)
  define eps :: real where "eps = 1 / 2 ^ 21"
  define c :: real where "c = 2 * (real k + 1) / 2 ^ 21"
  have eps: "0 < eps" "eps < 1 / 2 ^ 20" by (simp_all add: eps_def)
  from k have "real k \<le> 524286" by simp
  then have c: "2 * eps \<le> c" "c + 2 * eps \<le> 1 / 2"
    unfolding c_def eps_def by (simp_all add: field_simps del: of_nat_le_numeral_iff)
  have c': "c + 2 * eps = 2 * (real (Suc k) + 1) / 2 ^ 21" by (simp add: c_def eps_def)
  from a pe have ia: "- (2 ^ 31) \<le> p" "eps \<le> e" "\<bar>p + e - m\<bar> \<le> c" "m \<le> 2 ^ 31"
    by (simp_all add: spanInv_def eps_def c_def)
  from r qf have ir: "- (2 ^ 31) \<le> q" "3 * eps \<le> f" "\<bar>q + f - v\<bar> \<le> 2 * eps" "v \<le> 2 ^ 31"
    by (simp_all add: spanRect_def eps_def)
  define t where "t = p + e"
  define u where "u = q + f"
  define T where "T = fl64 t"
  define U where "U = fl64 u"
  define R where "R = max T U"
  define p' where "p' = min p q"
  define e' where "e' = fl64 (R - p')"
  have tb: "- (2 ^ 31) \<le> t" "t \<le> 2 ^ 31 + 1"
    using ia eps c unfolding t_def by (simp_all add: abs_le_iff)
  have ub: "- (2 ^ 31) \<le> u" "u \<le> 2 ^ 31 + 1"
    using ir eps unfolding u_def by (simp_all add: abs_le_iff)
  have "\<bar>t\<bar> < 2 ^ 33" using tb by (simp add: abs_less_iff)
  then have T: "\<bar>T - t\<bar> \<le> eps" unfolding T_def eps_def by (rule fl64_error)
  have "\<bar>u\<bar> < 2 ^ 33" using ub by (simp add: abs_less_iff)
  then have U: "\<bar>U - u\<bar> \<le> eps" unfolding U_def eps_def by (rule fl64_error)
  have Rlo: "q + 2 * eps \<le> R" using U ir unfolding R_def u_def by (simp add: abs_le_iff max_def)
  have Rhi: "R \<le> 2 ^ 31 + 2" using T U tb ub eps unfolding R_def by (simp add: abs_le_iff max_def)
  have p'b: "- (2 ^ 31) \<le> p'" "p' \<le> q" using ia ir unfolding p'_def by simp_all
  have d: "2 * eps \<le> R - p'" "R - p' < 2 ^ 33" using Rlo Rhi p'b by simp_all
  then have "\<bar>R - p'\<bar> < 2 ^ 33" using eps by (simp add: abs_less_iff)
  then have E: "\<bar>e' - (R - p')\<bar> \<le> eps" unfolding e'_def eps_def by (rule fl64_error)
  have e'lo: "eps \<le> e'" using E d by (simp add: abs_le_iff)
  have mx: "\<bar>max t u - max m v\<bar> \<le> c"
    using ia(3) ir(3) eps c unfolding t_def u_def by (simp add: abs_le_iff max_def)
  have Rm: "\<bar>R - max t u\<bar> \<le> eps" using T U unfolding R_def by (simp add: abs_le_iff max_def)
  have "\<bar>p' + e' - max m v\<bar> \<le> c + 2 * eps"
    using E Rm mx by (simp add: abs_le_iff)
  then have "\<bar>p' + e' - max m v\<bar> \<le> 2 * (real (Suc k) + 1) / 2 ^ 21" by (simp only: c')
  moreover have "max m v \<le> 2 ^ 31" using ia ir by simp
  moreover have "stepSpan a r = (p', e')"
    by (simp add: stepSpan_def pe qf p'_def e'_def R_def T_def U_def t_def u_def)
  ultimately show ?thesis using p'b e'lo
    by (simp add: spanInv_def eps_def)
qed

lemma foldl_stepSpan_inv:
  assumes "spanInv k m a" and "\<forall>s\<in>set ss. spanRect (vf s) (sf s)"
    and "k + length ss + 1 \<le> 2 ^ 19"
  shows "spanInv (k + length ss) (foldl max m (map vf ss)) (foldl stepSpan a (map sf ss))"
  using assms
proof (induction ss arbitrary: k m a)
  case Nil
  then show ?case by simp
next
  case (Cons s ss)
  from Cons.prems have "spanInv (Suc k) (max m (vf s)) (stepSpan a (sf s))"
    by (intro stepSpan_inv) simp_all
  moreover from Cons.prems have "\<forall>s\<in>set ss. spanRect (vf s) (sf s)"
    and "Suc k + length ss + 1 \<le> 2 ^ 19" by simp_all
  ultimately have "spanInv (Suc k + length ss) (foldl max (max m (vf s)) (map vf ss))
      (foldl stepSpan (stepSpan a (sf s)) (map sf ss))"
    by (intro Cons.IH)
  then show ?case by simp
qed

lemma foldl_stepSpan_fst: "fst (foldl stepSpan a rs) = foldl min (fst a) (map fst rs)"
  by (induction rs arbitrary: a) (simp_all add: stepSpan_def)

lemma foldl_min_Min:
  fixes m :: "'a::linorder"
  shows "foldl min m xs = Min (insert m (set xs))"
  by (induction xs arbitrary: m) (simp_all add: Min_insert_min)

lemma foldl_max_Max:
  fixes m :: "'a::linorder"
  shows "foldl max m xs = Max (insert m (set xs))"
  by (induction xs arbitrary: m) (simp_all add: Max_insert_max)

lemma spanOf_rect:
  fixes a b :: int and d :: real
  assumes a: "\<bar>a\<bar> \<le> 2 ^ 20" and b: "\<bar>b\<bar> \<le> 2 ^ 20" and ab: "a \<le> b"
    and d: "1 / 2 ^ 10 \<le> d" "d \<le> 2 ^ 10"
  shows "spanRect (real_of_int (b + 1) / d) (spanOf a (b - a + 1) d)"
    and "\<bar>fst (spanOf a (b - a + 1) d) - real_of_int a / d\<bar> \<le> 1 / 2 ^ 21"
    and "\<bar>real_of_int a / d\<bar> < 2 ^ 53"
proof -
  define x where "x = real_of_int a / d"
  define y where "y = real_of_int (b - a + 1) / d"
  define v where "v = real_of_int (b + 1) / d"
  from d have d0: "0 < d" "(0::real) < 1 / 2 ^ 10" by simp_all
  have sum: "x + y = v" unfolding x_def y_def v_def by (simp add: add_divide_distrib [symmetric])
  have "\<bar>real_of_int a\<bar> / d \<le> 2 ^ 20 / (1 / 2 ^ 10)"
    using a d d0 by (intro frac_le) simp_all
  then have xb: "\<bar>x\<bar> \<le> 2 ^ 30" using d0 by (simp add: x_def)
  have "1 / 2 ^ 10 \<le> real_of_int (b - a + 1) / d"
    using ab d d0 by (intro frac_le) simp_all
  then have yl: "1 / 2 ^ 10 \<le> y" by (simp add: y_def)
  have "real_of_int (b - a + 1) / d \<le> (2 ^ 21 + 1) / (1 / 2 ^ 10)"
    using a b ab d d0 by (intro frac_le) simp_all
  then have yu: "y \<le> 2 ^ 32" by (simp add: y_def)
  have vu: "v \<le> 2 ^ 31"
  proof (cases "0 \<le> b + 1")
    case True
    then have "real_of_int (b + 1) / d \<le> (2 ^ 20 + 1) / (1 / 2 ^ 10)"
      using b d d0 by (intro frac_le) simp_all
    then show ?thesis by (simp add: v_def)
  next
    case False
    then have "real_of_int (b + 1) / d \<le> 0" using d0 by (simp add: divide_le_0_iff)
    then show ?thesis by (simp add: v_def)
  qed
  define eps :: real where "eps = 1 / 2 ^ 21"
  have eps: "0 < eps" "eps \<le> 1" "4 * eps \<le> 1 / 2 ^ 10" by (simp_all add: eps_def)
  have "\<bar>x\<bar> < 2 ^ 33" using xb by simp
  then have X: "\<bar>fl64 x - x\<bar> \<le> eps" unfolding eps_def by (rule fl64_error)
  have "\<bar>y\<bar> < 2 ^ 33" using yl yu by (simp add: abs_less_iff)
  then have Y: "\<bar>fl64 y - y\<bar> \<le> eps" unfolding eps_def by (rule fl64_error)
  have s: "spanOf a (b - a + 1) d = (fl64 x, fl64 y)" by (simp add: spanOf_def x_def y_def)
  have p: "(- (2 ^ 31) :: real) \<le> - (2 ^ 30) - 1" by simp
  from xb have "- (2 ^ 30) \<le> x" by linarith
  with X p eps have c1: "- (2 ^ 31) \<le> fl64 x" by linarith
  from Y yl eps have "3 * eps \<le> fl64 y" by linarith
  then have c2: "3 / 2 ^ 21 \<le> fl64 y" by (simp add: eps_def)
  from X Y sum have "\<bar>fl64 x + fl64 y - v\<bar> \<le> 2 * eps" by linarith
  then have c3: "\<bar>fl64 x + fl64 y - v\<bar> \<le> 2 / 2 ^ 21" by (simp add: eps_def)
  from c1 c2 c3 vu
  show "spanRect (real_of_int (b + 1) / d) (spanOf a (b - a + 1) d)"
    unfolding s spanRect_def v_def [symmetric] by simp
  from X show "\<bar>fst (spanOf a (b - a + 1) d) - real_of_int a / d\<bar> \<le> 1 / 2 ^ 21"
    by (simp add: s x_def eps_def)
  from xb show "\<bar>real_of_int a / d\<bar> < 2 ^ 53" by (simp add: x_def)
qed

lemma screen_spans:
  assumes "validScreen s" "boundedScreen s"
  shows "spanRect (logicalRight s) (xspan s)" "spanRect (logicalBottom s) (yspan s)"
    and "\<bar>fst (xspan s) - logicalLeft s\<bar> \<le> 1 / 2 ^ 21"
    and "\<bar>fst (yspan s) - logicalTop s\<bar> \<le> 1 / 2 ^ 21"
    and "\<bar>logicalLeft s\<bar> < 2 ^ 53" "\<bar>logicalTop s\<bar> < 2 ^ 53"
  using assms
    spanOf_rect [of "qx1 (geometry s)" "qx2 (geometry s)" "screenRatio s"]
    spanOf_rect [of "qy1 (geometry s)" "qy2 (geometry s)" "screenRatio s"]
  by (simp_all add: validScreen_def boundedScreen_def xspan_def yspan_def width_def height_def
      logicalRight_def logicalBottom_def logicalLeft_def logicalTop_def)

lemma unitedF_spans:
  assumes "0 < fw a" "0 < fh a" "0 < fw r" "0 < fh r"
  shows "unitedF a r =
     QRectF (fst (stepSpan (fxp a, fw a) (fxp r, fw r))) (fst (stepSpan (fyp a, fh a) (fyp r, fh r)))
            (snd (stepSpan (fxp a, fw a) (fxp r, fw r))) (snd (stepSpan (fyp a, fh a) (fyp r, fh r)))"
  using assms by (simp add: unitedF_def isNullF_def stepSpan_def Let_def)

lemma logicalLoop_spans:
  assumes "\<forall>s\<in>set ss. spanRect (logicalRight s) (xspan s) \<and> spanRect (logicalBottom s) (yspan s)"
    and "spanInv k mx (fxp g, fw g)" and "spanInv k my (fyp g, fh g)"
    and "k + length ss + 1 \<le> 2 ^ 19"
  shows "logicalLoop ss g =
     QRectF (fst (foldl stepSpan (fxp g, fw g) (map xspan ss)))
            (fst (foldl stepSpan (fyp g, fh g) (map yspan ss)))
            (snd (foldl stepSpan (fxp g, fw g) (map xspan ss)))
            (snd (foldl stepSpan (fyp g, fh g) (map yspan ss)))"
  using assms
proof (induction ss arbitrary: g k mx my)
  case Nil
  then show ?case by simp
next
  case (Cons s ss)
  define r where "r = QRectF (fst (xspan s)) (fst (yspan s)) (snd (xspan s)) (snd (yspan s))"
  define g' where "g' = unitedF g r"
  have step: "logicalLoop (s # ss) g = logicalLoop ss g'"
    by (simp add: g'_def r_def xspan_def yspan_def spanOf_def Let_def)
  from Cons.prems(1) have rs: "spanRect (logicalRight s) (xspan s)"
    "spanRect (logicalBottom s) (yspan s)" by simp_all
  then have rpos: "0 < fw r" "0 < fh r" by (simp_all add: spanRect_def r_def)
  from Cons.prems(2,3) have gpos: "0 < fw g" "0 < fh g" by (simp_all add: spanInv_def)
  have r: "(fxp r, fw r) = xspan s" "(fyp r, fh r) = yspan s" by (simp_all add: r_def)
  have u: "(fxp g', fw g') = stepSpan (fxp g, fw g) (xspan s)"
    "(fyp g', fh g') = stepSpan (fyp g, fh g) (yspan s)"
    unfolding g'_def unitedF_spans [OF gpos rpos] r by simp_all
  from Cons.prems(4) have k: "k + 2 \<le> 2 ^ 19" "Suc k + length ss + 1 \<le> 2 ^ 19" by simp_all
  have ix: "spanInv (Suc k) (max mx (logicalRight s)) (fxp g', fw g')"
    unfolding u by (rule stepSpan_inv [OF Cons.prems(2) rs(1) k(1)])
  have iy: "spanInv (Suc k) (max my (logicalBottom s)) (fyp g', fh g')"
    unfolding u by (rule stepSpan_inv [OF Cons.prems(3) rs(2) k(1)])
  from Cons.prems(1) have rest:
    "\<forall>s\<in>set ss. spanRect (logicalRight s) (xspan s) \<and> spanRect (logicalBottom s) (yspan s)"
    by simp
  from Cons.IH [OF rest ix iy k(2)] show ?case unfolding step u by simp
qed

lemma span_edges:
  fixes lf vf :: "'a \<Rightarrow> real"
  assumes ne: "ss = s1 # rest"
    and rect: "\<forall>s\<in>set ss. spanRect (vf s) (sf s)"
    and left: "\<forall>s\<in>set ss. fst (sf s) = fl64 (lf s) \<and> \<bar>lf s\<bar> < 2 ^ 53
                 \<and> \<bar>fst (sf s) - lf s\<bar> \<le> 1 / 2 ^ 21"
    and len: "length ss \<le> 2 ^ 19"
    and X: "X = foldl stepSpan (sf s1) (map sf rest)"
  shows "fst X = Min ((\<lambda>s. fl64 (lf s)) ` set ss)"
    and "\<lfloor>Min (lf ` set ss)\<rfloor> \<le> \<lfloor>fst X\<rfloor>"
    and "\<lfloor>fst X\<rfloor> \<le> \<lfloor>Min (lf ` set ss)\<rfloor> + 1"
    and "\<lceil>Max (vf ` set ss)\<rceil> - 1 \<le> \<lceil>fl64 (fst X + snd X)\<rceil>"
    and "\<lceil>fl64 (fst X + snd X)\<rceil> \<le> \<lceil>Max (vf ` set ss)\<rceil> + 1"
proof -
  define lo where "lo = Min (lf ` set ss)"
  define hi where "hi = Max (vf ` set ss)"
  have fin: "finite (set ss)" "set ss \<noteq> {}" using ne by simp_all
  have "fst X = foldl min (fst (sf s1)) (map fst (map sf rest))"
    unfolding X by (rule foldl_stepSpan_fst)
  also have "\<dots> = Min ((\<lambda>s. fst (sf s)) ` set ss)"
    by (simp add: foldl_min_Min ne image_image)
  also have "\<dots> = Min ((\<lambda>s. fl64 (lf s)) ` set ss)"
    using left by (intro arg_cong [where f = Min] image_cong) simp_all
  finally show fx: "fst X = Min ((\<lambda>s. fl64 (lf s)) ` set ss)" .
  have "lo \<in> lf ` set ss" unfolding lo_def using fin by (intro Min_in) simp_all
  then obtain s' where s': "s' \<in> set ss" "lo = lf s'" by blast
  have ge: "real_of_int \<lfloor>lo\<rfloor> \<le> fl64 (lf s)" if "s \<in> set ss" for s
  proof -
    from that have "lo \<le> lf s" unfolding lo_def using fin by (intro Min_le) simp_all
    then have "real_of_int \<lfloor>lo\<rfloor> \<le> lf s" by linarith
    moreover from that left have "\<bar>lf s\<bar> < 2 ^ 53" by simp
    ultimately show ?thesis by (intro fl64_barrier(1))
  qed
  have "real_of_int \<lfloor>lo\<rfloor> \<le> fst X" unfolding fx using fin ge by (simp add: image_iff)
  then show "\<lfloor>Min (lf ` set ss)\<rfloor> \<le> \<lfloor>fst X\<rfloor>" unfolding lo_def [symmetric] by (simp add: le_floor_iff)
  define eps :: real where "eps = 1 / 2 ^ 21"
  have eps: "0 < eps" "eps \<le> 1 / 4" by (simp_all add: eps_def)
  have "fst X \<le> fl64 (lf s')" unfolding fx using fin s' by (intro Min_le) simp_all
  moreover from left s' have "\<bar>fl64 (lf s') - lf s'\<bar> \<le> eps" by (auto simp: eps_def)
  ultimately have "fst X < real_of_int \<lfloor>lo\<rfloor> + 2" using s'(2) eps by linarith
  then have "fst X < real_of_int (\<lfloor>lo\<rfloor> + 1 + 1)" by simp
  then have "\<lfloor>fst X\<rfloor> < \<lfloor>lo\<rfloor> + 1 + 1" by (simp only: floor_less_iff)
  then show "\<lfloor>fst X\<rfloor> \<le> \<lfloor>Min (lf ` set ss)\<rfloor> + 1" unfolding lo_def [symmetric] by simp
  from rect ne have r1: "spanInv 0 (vf s1) (sf s1)" by (intro spanRect_inv) simp
  from rect ne have rr: "\<forall>s\<in>set rest. spanRect (vf s) (sf s)" by simp
  from len ne have l: "0 + length rest + 1 \<le> 2 ^ 19" by simp
  from foldl_stepSpan_inv [OF r1 rr l]
  have inv: "spanInv (length rest) (foldl max (vf s1) (map vf rest)) X" unfolding X by simp
  have m: "foldl max (vf s1) (map vf rest) = hi" by (simp add: foldl_max_Max hi_def ne)
  define t where "t = fst X + snd X"
  define c :: real where "c = 2 * (real (length rest) + 1) / 2 ^ 21"
  from l have "real (length rest) \<le> 524287" by simp
  then have c: "c \<le> 1 / 2" unfolding c_def by (simp add: field_simps del: of_nat_le_numeral_iff)
  from inv have i: "- (2 ^ 31) \<le> fst X" "0 < snd X" "\<bar>t - hi\<bar> \<le> c" "hi \<le> 2 ^ 31"
    unfolding m t_def c_def by (simp_all add: spanInv_def)
  then have "\<bar>t\<bar> < 2 ^ 33" using c unfolding t_def by (simp add: abs_less_iff abs_le_iff)
  then have T: "\<bar>fl64 t - t\<bar> \<le> eps" unfolding eps_def by (rule fl64_error)
  have "fl64 t \<le> real_of_int \<lceil>hi\<rceil> + 1" using T i(3) c eps by linarith
  then have "fl64 t \<le> real_of_int (\<lceil>hi\<rceil> + 1)" by simp
  then show "\<lceil>fl64 (fst X + snd X)\<rceil> \<le> \<lceil>Max (vf ` set ss)\<rceil> + 1"
    unfolding hi_def [symmetric] t_def [symmetric] by (simp only: ceiling_le_iff)
  have "real_of_int \<lceil>hi\<rceil> - 2 < fl64 t" using T i(3) c eps by linarith
  then have "real_of_int (\<lceil>hi\<rceil> - 1 - 1) < fl64 t" by simp
  then have "\<lceil>hi\<rceil> - 1 - 1 < \<lceil>fl64 t\<rceil>" by (simp only: less_ceiling_iff)
  then show "\<lceil>Max (vf ` set ss)\<rceil> - 1 \<le> \<lceil>fl64 (fst X + snd X)\<rceil>"
    unfolding hi_def [symmetric] t_def [symmetric] by simp
qed


lemma logicalLoop_aligned:
  assumes ss: "ss = s1 # rest"
    and ok: "\<forall>s\<in>set ss. validScreen s \<and> boundedScreen s"
    and len: "length ss \<le> 2 ^ 19"
    and X: "X = foldl stepSpan (xspan s1) (map xspan rest)"
    and Y: "Y = foldl stepSpan (yspan s1) (map yspan rest)"
  shows "toAlignedRect (logicalLoop ss nullRectF) =
      QRect \<lfloor>fst X\<rfloor> \<lfloor>fst Y\<rfloor> (\<lceil>fl64 (fst X + snd X)\<rceil> - 1) (\<lceil>fl64 (fst Y + snd Y)\<rceil> - 1)"
proof -
  define r where "r = QRectF (fst (xspan s1)) (fst (yspan s1)) (snd (xspan s1)) (snd (yspan s1))"
  have rects: "\<forall>s\<in>set ss. spanRect (logicalRight s) (xspan s) \<and> spanRect (logicalBottom s) (yspan s)"
    using ok screen_spans(1,2) by blast
  have first: "logicalLoop ss nullRectF = logicalLoop rest r"
    by (simp add: ss r_def unitedF_nullRectF xspan_def yspan_def spanOf_def Let_def)
  have r: "(fxp r, fw r) = xspan s1" "(fyp r, fh r) = yspan s1" by (simp_all add: r_def)
  from rects ss have ix: "spanInv 0 (logicalRight s1) (fxp r, fw r)"
    and iy: "spanInv 0 (logicalBottom s1) (fyp r, fh r)"
    unfolding r by (simp_all add: spanRect_inv)
  from rects ss have rest: "\<forall>s\<in>set rest. spanRect (logicalRight s) (xspan s)
      \<and> spanRect (logicalBottom s) (yspan s)" by simp
  from len ss have l: "0 + length rest + 1 \<le> 2 ^ 19" by simp
  have G: "logicalLoop ss nullRectF = QRectF (fst X) (fst Y) (snd X) (snd Y)"
    unfolding first logicalLoop_spans [OF rest ix iy l] r X Y ..
  show ?thesis unfolding G by (simp add: toAlignedRect_def mkRect_def Let_def)
qed

lemma generic_logical_edges:
  assumes ne: "ss \<noteq> []"
    and ok: "\<forall>s\<in>set ss. validScreen s \<and> boundedScreen s"
    and len: "length ss \<le> 2 ^ 19"
  shows "qx1 (toAlignedRect (logicalLoop ss nullRectF)) =
           \<lfloor>Min ((\<lambda>s. fl64 (logicalLeft s)) ` set ss)\<rfloor>"
    and "qy1 (toAlignedRect (logicalLoop ss nullRectF)) =
           \<lfloor>Min ((\<lambda>s. fl64 (logicalTop s)) ` set ss)\<rfloor>"
    and "\<lfloor>Min (logicalLeft ` set ss)\<rfloor> \<le> qx1 (toAlignedRect (logicalLoop ss nullRectF))"
    and "qx1 (toAlignedRect (logicalLoop ss nullRectF)) \<le> \<lfloor>Min (logicalLeft ` set ss)\<rfloor> + 1"
    and "\<lfloor>Min (logicalTop ` set ss)\<rfloor> \<le> qy1 (toAlignedRect (logicalLoop ss nullRectF))"
    and "qy1 (toAlignedRect (logicalLoop ss nullRectF)) \<le> \<lfloor>Min (logicalTop ` set ss)\<rfloor> + 1"
    and "\<lceil>Max (logicalRight ` set ss)\<rceil> - 1 \<le> qx2 (toAlignedRect (logicalLoop ss nullRectF)) + 1"
    and "qx2 (toAlignedRect (logicalLoop ss nullRectF)) + 1 \<le> \<lceil>Max (logicalRight ` set ss)\<rceil> + 1"
    and "\<lceil>Max (logicalBottom ` set ss)\<rceil> - 1 \<le> qy2 (toAlignedRect (logicalLoop ss nullRectF)) + 1"
    and "qy2 (toAlignedRect (logicalLoop ss nullRectF)) + 1 \<le> \<lceil>Max (logicalBottom ` set ss)\<rceil> + 1"
proof -
  from ne obtain s1 rest where ss: "ss = s1 # rest" by (cases ss) auto
  define X where "X = foldl stepSpan (xspan s1) (map xspan rest)"
  define Y where "Y = foldl stepSpan (yspan s1) (map yspan rest)"
  note L = logicalLoop_aligned [OF ss ok len X_def Y_def]
  have rects: "\<forall>s\<in>set ss. spanRect (logicalRight s) (xspan s) \<and> spanRect (logicalBottom s) (yspan s)"
    using ok screen_spans(1,2) by blast
  have rx: "\<forall>s\<in>set ss. spanRect (logicalRight s) (xspan s)" using rects by simp
  have ry: "\<forall>s\<in>set ss. spanRect (logicalBottom s) (yspan s)" using rects by simp
  have lx: "\<forall>s\<in>set ss. fst (xspan s) = fl64 (logicalLeft s) \<and> \<bar>logicalLeft s\<bar> < 2 ^ 53
                 \<and> \<bar>fst (xspan s) - logicalLeft s\<bar> \<le> 1 / 2 ^ 21"
    using ok screen_spans(3,5) by (auto simp: xspan_def spanOf_def logicalLeft_def)
  have ly: "\<forall>s\<in>set ss. fst (yspan s) = fl64 (logicalTop s) \<and> \<bar>logicalTop s\<bar> < 2 ^ 53
                 \<and> \<bar>fst (yspan s) - logicalTop s\<bar> \<le> 1 / 2 ^ 21"
    using ok screen_spans(4,6) by (auto simp: yspan_def spanOf_def logicalTop_def)
  note ex = span_edges [OF ss rx lx len X_def]
  note ey = span_edges [OF ss ry ly len Y_def]
  from ex(1) show "qx1 (toAlignedRect (logicalLoop ss nullRectF)) =
           \<lfloor>Min ((\<lambda>s. fl64 (logicalLeft s)) ` set ss)\<rfloor>" by (simp add: L)
  from ey(1) show "qy1 (toAlignedRect (logicalLoop ss nullRectF)) =
           \<lfloor>Min ((\<lambda>s. fl64 (logicalTop s)) ` set ss)\<rfloor>" by (simp add: L)
  from ex(2) show "\<lfloor>Min (logicalLeft ` set ss)\<rfloor> \<le> qx1 (toAlignedRect (logicalLoop ss nullRectF))"
    by (simp add: L)
  from ex(3) show "qx1 (toAlignedRect (logicalLoop ss nullRectF)) \<le> \<lfloor>Min (logicalLeft ` set ss)\<rfloor> + 1"
    by (simp add: L)
  from ey(2) show "\<lfloor>Min (logicalTop ` set ss)\<rfloor> \<le> qy1 (toAlignedRect (logicalLoop ss nullRectF))"
    by (simp add: L)
  from ey(3) show "qy1 (toAlignedRect (logicalLoop ss nullRectF)) \<le> \<lfloor>Min (logicalTop ` set ss)\<rfloor> + 1"
    by (simp add: L)
  from ex(4) show "\<lceil>Max (logicalRight ` set ss)\<rceil> - 1 \<le> qx2 (toAlignedRect (logicalLoop ss nullRectF)) + 1"
    by (simp add: L)
  from ex(5) show "qx2 (toAlignedRect (logicalLoop ss nullRectF)) + 1 \<le> \<lceil>Max (logicalRight ` set ss)\<rceil> + 1"
    by (simp add: L)
  from ey(4) show "\<lceil>Max (logicalBottom ` set ss)\<rceil> - 1 \<le> qy2 (toAlignedRect (logicalLoop ss nullRectF)) + 1"
    by (simp add: L)
  from ey(5) show "qy2 (toAlignedRect (logicalLoop ss nullRectF)) + 1 \<le> \<lceil>Max (logicalBottom ` set ss)\<rceil> + 1"
    by (simp add: L)
qed



lemma isWhole_of_int: "isWhole v \<Longrightarrow> v = real_of_int \<lfloor>v\<rfloor>"
  by (auto simp: isWhole_def)

lemma stepSpan_int:
  fixes P M Q N :: int
  assumes "\<bar>P\<bar> \<le> 2 ^ 31" "\<bar>M\<bar> \<le> 2 ^ 31" "\<bar>Q\<bar> \<le> 2 ^ 31" "\<bar>N\<bar> \<le> 2 ^ 31"
  shows "stepSpan (real_of_int P, real_of_int (M - P)) (real_of_int Q, real_of_int (N - Q)) =
     (real_of_int (min P Q), real_of_int (max M N - min P Q))"
proof -
  have m: "fl64 (real_of_int M) = real_of_int M" "fl64 (real_of_int N) = real_of_int N"
    using fl64_of_int [of M] fl64_of_int [of N] assms by simp_all
  have "\<bar>max M N - min P Q\<bar> < 2 ^ 53"
    using assms by (auto simp: abs_less_iff abs_le_iff min_def max_def)
  then have "fl64 (real_of_int (max M N - min P Q)) = real_of_int (max M N - min P Q)"
    by (rule fl64_of_int)
  moreover have "real_of_int (max M N - min P Q) =
      max (real_of_int M) (real_of_int N) - min (real_of_int P) (real_of_int Q)"
    by (simp add: min_def max_def)
  moreover have "min (real_of_int P) (real_of_int Q) = real_of_int (min P Q)"
    by (simp add: min_def)
  ultimately show ?thesis by (simp add: stepSpan_def m)
qed

lemma foldl_stepSpan_int:
  fixes zl zr :: "'a \<Rightarrow> int"
  assumes "\<forall>s\<in>set ss. sf s = (real_of_int (zl s), real_of_int (zr s - zl s))
             \<and> \<bar>zl s\<bar> \<le> 2 ^ 31 \<and> \<bar>zr s\<bar> \<le> 2 ^ 31"
    and "\<bar>P\<bar> \<le> 2 ^ 31" "\<bar>M\<bar> \<le> 2 ^ 31"
  shows "foldl stepSpan (real_of_int P, real_of_int (M - P)) (map sf ss) =
     (real_of_int (foldl min P (map zl ss)),
      real_of_int (foldl max M (map zr ss) - foldl min P (map zl ss)))"
  using assms
proof (induction ss arbitrary: P M)
  case Nil
  then show ?case by simp
next
  case (Cons s ss)
  from Cons.prems have s: "sf s = (real_of_int (zl s), real_of_int (zr s - zl s))"
    "\<bar>zl s\<bar> \<le> 2 ^ 31" "\<bar>zr s\<bar> \<le> 2 ^ 31" by simp_all
  have st: "stepSpan (real_of_int P, real_of_int (M - P)) (sf s) =
      (real_of_int (min P (zl s)), real_of_int (max M (zr s) - min P (zl s)))"
    unfolding s(1) using Cons.prems(2,3) s(2,3) by (intro stepSpan_int)
  from Cons.prems(2,3) s(2,3) have b: "\<bar>min P (zl s)\<bar> \<le> 2 ^ 31" "\<bar>max M (zr s)\<bar> \<le> 2 ^ 31"
    by (simp_all add: min_def max_def)
  from Cons.prems(1) have rest: "\<forall>s\<in>set ss. sf s = (real_of_int (zl s), real_of_int (zr s - zl s))
             \<and> \<bar>zl s\<bar> \<le> 2 ^ 31 \<and> \<bar>zr s\<bar> \<le> 2 ^ 31" by simp
  from Cons.IH [OF rest b] show ?case by (simp only: list.map foldl_Cons st)
qed

lemma whole_spans:
  assumes v: "validScreen s" and b: "boundedScreen s" and w: "wholeScreen s"
  shows "xspan s = (real_of_int \<lfloor>logicalLeft s\<rfloor>, real_of_int (\<lfloor>logicalRight s\<rfloor> - \<lfloor>logicalLeft s\<rfloor>))"
    and "yspan s = (real_of_int \<lfloor>logicalTop s\<rfloor>, real_of_int (\<lfloor>logicalBottom s\<rfloor> - \<lfloor>logicalTop s\<rfloor>))"
    and "\<bar>\<lfloor>logicalLeft s\<rfloor>\<bar> \<le> 2 ^ 31" "\<bar>\<lfloor>logicalRight s\<rfloor>\<bar> \<le> 2 ^ 31"
    and "\<bar>\<lfloor>logicalTop s\<rfloor>\<bar> \<le> 2 ^ 31" "\<bar>\<lfloor>logicalBottom s\<rfloor>\<bar> \<le> 2 ^ 31"
proof -
  let ?d = "screenRatio s"
  from b have d: "1 / 2 ^ 10 \<le> ?d" "?d \<le> 2 ^ 10" by (simp_all add: boundedScreen_def)
  then have d0: "0 < ?d" "(0::real) < 1 / 2 ^ 10" by simp_all
  have q: "\<bar>real_of_int a / ?d\<bar> \<le> 2 ^ 31" if "\<bar>a\<bar> \<le> 2 ^ 20 + 1" for a :: int
  proof -
    from that have "real_of_int \<bar>a\<bar> \<le> real_of_int (2 ^ 20 + 1)" by (simp only: of_int_le_iff)
    then have "\<bar>real_of_int a\<bar> \<le> 2 ^ 20 + 1" by simp
    then have "\<bar>real_of_int a\<bar> / ?d \<le> (2 ^ 20 + 1) / (1 / 2 ^ 10)"
      using d d0 by (intro frac_le) simp_all
    then show ?thesis using d0 by simp
  qed
  from b have c: "\<bar>qx1 (geometry s)\<bar> \<le> 2 ^ 20 + 1" "\<bar>qx2 (geometry s) + 1\<bar> \<le> 2 ^ 20 + 1"
    "\<bar>qy1 (geometry s)\<bar> \<le> 2 ^ 20 + 1" "\<bar>qy2 (geometry s) + 1\<bar> \<le> 2 ^ 20 + 1"
    by (auto simp: boundedScreen_def abs_le_iff)
  from c [THEN q] have r: "\<bar>logicalLeft s\<bar> \<le> 2 ^ 31" "\<bar>logicalRight s\<bar> \<le> 2 ^ 31"
    "\<bar>logicalTop s\<bar> \<le> 2 ^ 31" "\<bar>logicalBottom s\<bar> \<le> 2 ^ 31"
    by (simp_all add: logicalLeft_def logicalRight_def logicalTop_def logicalBottom_def)
  from w have e: "logicalLeft s = real_of_int \<lfloor>logicalLeft s\<rfloor>"
    "logicalRight s = real_of_int \<lfloor>logicalRight s\<rfloor>"
    "logicalTop s = real_of_int \<lfloor>logicalTop s\<rfloor>"
    "logicalBottom s = real_of_int \<lfloor>logicalBottom s\<rfloor>"
    by (simp_all add: wholeScreen_def isWhole_of_int [symmetric])
  have i: "\<bar>k\<bar> \<le> 2 ^ 31" if "\<bar>real_of_int k\<bar> \<le> 2 ^ 31" for k :: int
  proof -
    from that have "real_of_int \<bar>k\<bar> \<le> real_of_int (2 ^ 31)" by simp
    then show ?thesis by (simp only: of_int_le_iff)
  qed
  from r e show z: "\<bar>\<lfloor>logicalLeft s\<rfloor>\<bar> \<le> 2 ^ 31" "\<bar>\<lfloor>logicalRight s\<rfloor>\<bar> \<le> 2 ^ 31"
    "\<bar>\<lfloor>logicalTop s\<rfloor>\<bar> \<le> 2 ^ 31" "\<bar>\<lfloor>logicalBottom s\<rfloor>\<bar> \<le> 2 ^ 31"
    by (metis i)+
  have f: "fl64 (real_of_int k) = real_of_int k" if "\<bar>k\<bar> \<le> 2 ^ 32" for k :: int
    using that by (intro fl64_of_int) simp
  have wx: "real_of_int (width (geometry s)) / ?d = logicalRight s - logicalLeft s"
    by (simp add: width_def logicalRight_def logicalLeft_def diff_divide_distrib add_divide_distrib)
  have wy: "real_of_int (height (geometry s)) / ?d = logicalBottom s - logicalTop s"
    by (simp add: height_def logicalBottom_def logicalTop_def diff_divide_distrib add_divide_distrib)
  have dx: "logicalRight s - logicalLeft s = real_of_int (\<lfloor>logicalRight s\<rfloor> - \<lfloor>logicalLeft s\<rfloor>)"
    using e by simp
  have dy: "logicalBottom s - logicalTop s = real_of_int (\<lfloor>logicalBottom s\<rfloor> - \<lfloor>logicalTop s\<rfloor>)"
    using e by simp
  have bx: "\<bar>\<lfloor>logicalRight s\<rfloor> - \<lfloor>logicalLeft s\<rfloor>\<bar> \<le> 2 ^ 32" "\<bar>\<lfloor>logicalLeft s\<rfloor>\<bar> \<le> 2 ^ 32"
    using z by simp_all
  have by': "\<bar>\<lfloor>logicalBottom s\<rfloor> - \<lfloor>logicalTop s\<rfloor>\<bar> \<le> 2 ^ 32" "\<bar>\<lfloor>logicalTop s\<rfloor>\<bar> \<le> 2 ^ 32"
    using z by simp_all
  have "xspan s = (fl64 (logicalLeft s), fl64 (logicalRight s - logicalLeft s))"
    by (simp add: xspan_def spanOf_def wx logicalLeft_def)
  also have "\<dots> = (fl64 (real_of_int \<lfloor>logicalLeft s\<rfloor>),
       fl64 (real_of_int (\<lfloor>logicalRight s\<rfloor> - \<lfloor>logicalLeft s\<rfloor>)))"
    using e(1) dx by simp
  finally show "xspan s = (real_of_int \<lfloor>logicalLeft s\<rfloor>, real_of_int (\<lfloor>logicalRight s\<rfloor> - \<lfloor>logicalLeft s\<rfloor>))"
    by (simp only: f [OF bx(1)] f [OF bx(2)])
  have "yspan s = (fl64 (logicalTop s), fl64 (logicalBottom s - logicalTop s))"
    by (simp add: yspan_def spanOf_def wy logicalTop_def)
  also have "\<dots> = (fl64 (real_of_int \<lfloor>logicalTop s\<rfloor>),
       fl64 (real_of_int (\<lfloor>logicalBottom s\<rfloor> - \<lfloor>logicalTop s\<rfloor>)))"
    using e(3) dy by simp
  finally show "yspan s = (real_of_int \<lfloor>logicalTop s\<rfloor>, real_of_int (\<lfloor>logicalBottom s\<rfloor> - \<lfloor>logicalTop s\<rfloor>))"
    by (simp only: f [OF by'(1)] f [OF by'(2)])
qed

lemma floor_Min:
  fixes f :: "'a \<Rightarrow> real"
  assumes "finite S" "S \<noteq> {}"
  shows "\<lfloor>Min (f ` S)\<rfloor> = Min ((\<lambda>s. \<lfloor>f s\<rfloor>) ` S)"
proof -
  have "mono (floor :: real \<Rightarrow> int)" by (simp add: mono_def floor_mono)
  from mono_Min_commute [OF this, of "f ` S"] assms show ?thesis by (simp add: image_image)
qed

lemma ceiling_Max:
  fixes f :: "'a \<Rightarrow> real"
  assumes "finite S" "S \<noteq> {}"
  shows "\<lceil>Max (f ` S)\<rceil> = Max ((\<lambda>s. \<lceil>f s\<rceil>) ` S)"
proof -
  have "mono (ceiling :: real \<Rightarrow> int)" by (simp add: mono_def ceiling_mono)
  from mono_Max_commute [OF this, of "f ` S"] assms show ?thesis by (simp add: image_image)
qed

lemma span_exact:
  fixes lf vf :: "'a \<Rightarrow> real"
  assumes ss: "ss = s1 # rest"
    and w: "\<forall>s\<in>set ss. sf s = (real_of_int \<lfloor>lf s\<rfloor>, real_of_int (\<lfloor>vf s\<rfloor> - \<lfloor>lf s\<rfloor>))
              \<and> \<bar>\<lfloor>lf s\<rfloor>\<bar> \<le> 2 ^ 31 \<and> \<bar>\<lfloor>vf s\<rfloor>\<bar> \<le> 2 ^ 31 \<and> vf s = real_of_int \<lfloor>vf s\<rfloor>"
    and X: "X = foldl stepSpan (sf s1) (map sf rest)"
  shows "\<lfloor>fst X\<rfloor> = \<lfloor>Min (lf ` set ss)\<rfloor>"
    and "\<lceil>fl64 (fst X + snd X)\<rceil> = \<lceil>Max (vf ` set ss)\<rceil>"
proof -
  define zl where "zl s = \<lfloor>lf s\<rfloor>" for s
  define zr where "zr s = \<lfloor>vf s\<rfloor>" for s
  define Zmin where "Zmin = Min (zl ` set ss)"
  define Zmax where "Zmax = Max (zr ` set ss)"
  have fin: "finite (set ss)" "set ss \<noteq> {}" using ss by simp_all
  from w have w': "\<forall>s\<in>set rest. sf s = (real_of_int (zl s), real_of_int (zr s - zl s))
             \<and> \<bar>zl s\<bar> \<le> 2 ^ 31 \<and> \<bar>zr s\<bar> \<le> 2 ^ 31"
    and s1: "sf s1 = (real_of_int (zl s1), real_of_int (zr s1 - zl s1))"
      "\<bar>zl s1\<bar> \<le> 2 ^ 31" "\<bar>zr s1\<bar> \<le> 2 ^ 31"
    by (simp_all add: ss zl_def zr_def)
  have "X = (real_of_int (foldl min (zl s1) (map zl rest)),
      real_of_int (foldl max (zr s1) (map zr rest) - foldl min (zl s1) (map zl rest)))"
    unfolding X s1(1) by (rule foldl_stepSpan_int [OF w' s1(2,3)])
  then have Xz: "X = (real_of_int Zmin, real_of_int (Zmax - Zmin))"
    by (simp add: foldl_min_Min foldl_max_Max Zmin_def Zmax_def ss)
  have "Zmax \<in> zr ` set ss" unfolding Zmax_def using fin by (intro Max_in) simp_all
  with w have zb: "\<bar>Zmax\<bar> \<le> 2 ^ 31" by (auto simp: zr_def)
  have "\<lfloor>fst X\<rfloor> = Zmin" by (simp add: Xz)
  also have "\<dots> = \<lfloor>Min (lf ` set ss)\<rfloor>" unfolding Zmin_def zl_def by (rule floor_Min [OF fin, symmetric])
  finally show "\<lfloor>fst X\<rfloor> = \<lfloor>Min (lf ` set ss)\<rfloor>" .
  have "fst X + snd X = real_of_int Zmax" by (simp add: Xz)
  moreover have "fl64 (real_of_int Zmax) = real_of_int Zmax" using zb by (intro fl64_of_int) simp
  ultimately have "\<lceil>fl64 (fst X + snd X)\<rceil> = Zmax" by simp
  also have "\<dots> = Max ((\<lambda>s. \<lceil>vf s\<rceil>) ` set ss)"
    unfolding Zmax_def zr_def using w
    by (intro arg_cong [where f = Max] image_cong refl) (metis ceiling_of_int)
  also have "\<dots> = \<lceil>Max (vf ` set ss)\<rceil>" by (rule ceiling_Max [OF fin, symmetric])
  finally show "\<lceil>fl64 (fst X + snd X)\<rceil> = \<lceil>Max (vf ` set ss)\<rceil>" .
qed

lemma generic_logical_exact:
  assumes ne: "ss \<noteq> []"
    and ok: "\<forall>s\<in>set ss. validScreen s \<and> boundedScreen s"
    and wh: "\<forall>s\<in>set ss. wholeScreen s"
    and len: "length ss \<le> 2 ^ 19"
  shows "toAlignedRect (logicalLoop ss nullRectF) =
     QRect \<lfloor>Min (logicalLeft ` set ss)\<rfloor> \<lfloor>Min (logicalTop ` set ss)\<rfloor>
           (\<lceil>Max (logicalRight ` set ss)\<rceil> - 1) (\<lceil>Max (logicalBottom ` set ss)\<rceil> - 1)"
proof -
  from ne obtain s1 rest where ss: "ss = s1 # rest" by (cases ss) auto
  define X where "X = foldl stepSpan (xspan s1) (map xspan rest)"
  define Y where "Y = foldl stepSpan (yspan s1) (map yspan rest)"
  note L = logicalLoop_aligned [OF ss ok len X_def Y_def]
  have e: "logicalRight s = real_of_int \<lfloor>logicalRight s\<rfloor>"
    "logicalBottom s = real_of_int \<lfloor>logicalBottom s\<rfloor>" if "s \<in> set ss" for s
    using wh that by (simp_all add: wholeScreen_def isWhole_of_int [symmetric])
  have wx: "\<forall>s\<in>set ss. xspan s = (real_of_int \<lfloor>logicalLeft s\<rfloor>,
        real_of_int (\<lfloor>logicalRight s\<rfloor> - \<lfloor>logicalLeft s\<rfloor>))
      \<and> \<bar>\<lfloor>logicalLeft s\<rfloor>\<bar> \<le> 2 ^ 31 \<and> \<bar>\<lfloor>logicalRight s\<rfloor>\<bar> \<le> 2 ^ 31
      \<and> logicalRight s = real_of_int \<lfloor>logicalRight s\<rfloor>"
    using ok wh whole_spans(1,3,4) e(1) by blast
  have wy: "\<forall>s\<in>set ss. yspan s = (real_of_int \<lfloor>logicalTop s\<rfloor>,
        real_of_int (\<lfloor>logicalBottom s\<rfloor> - \<lfloor>logicalTop s\<rfloor>))
      \<and> \<bar>\<lfloor>logicalTop s\<rfloor>\<bar> \<le> 2 ^ 31 \<and> \<bar>\<lfloor>logicalBottom s\<rfloor>\<bar> \<le> 2 ^ 31
      \<and> logicalBottom s = real_of_int \<lfloor>logicalBottom s\<rfloor>"
    using ok wh whole_spans(2,5,6) e(2) by blast
  from span_exact [OF ss wx X_def] span_exact [OF ss wy Y_def] show ?thesis
    unfolding L by simp
qed
















lemma fractional_logical:
  "toAlignedRect (logicalLoop (screens fractionalWorld) nullRectF) = QRect (- 1707) 0 1920 1079"
  by (simp add: fractionalWorld_def baseWorld_def unitedF_def isNullF_def nullRectF_def mkRect_def
      width_def height_def Let_def fl64_values toAlignedRect_def)

text \<open>The event loop returns at the first response, and only there.\<close>

lemma loopExec_first:
  assumes "busEvents w n = Response status m"
    and "\<forall>j. i \<le> j \<and> j < n \<longrightarrow> busEvents w j = OtherEvent"
    and "i \<le> n"
  shows "loopExec w i res = Some (gotSignal w status m res)"
  using assms(2,3)
proof (induction "n - i" arbitrary: i)
  case 0
  then have "i = n" by simp
  with assms(1) show ?case by (subst loopExec.simps) simp
next
  case (Suc k)
  then have lt: "i < n" and other: "busEvents w i = OtherEvent" by auto
  have "loopExec w (Suc i) res = Some (gotSignal w status m res)"
    using Suc.hyps(2) Suc.prems lt by (intro Suc.hyps(1)) auto
  with other show ?case by (subst loopExec.simps) simp
qed

lemma loopExec_Some:
  assumes "loopExec w i res = Some r"
  shows "\<exists>n status m. i \<le> n \<and> busEvents w n = Response status m
           \<and> (\<forall>j. i \<le> j \<and> j < n \<longrightarrow> busEvents w j = OtherEvent)
           \<and> r = gotSignal w status m res"
proof (induction rule: loopExec.raw_induct [OF _ assms])
  case (1 loopExec' w i res r)
  show ?case
  proof (cases "busEvents w i")
    case (Response status m)
    with 1(2) have "r = gotSignal w status m res" by simp
    with Response have "i \<le> i \<and> busEvents w i = Response status m
        \<and> (\<forall>j. i \<le> j \<and> j < i \<longrightarrow> busEvents w j = OtherEvent)
        \<and> r = gotSignal w status m res" by auto
    then show ?thesis by blast
  next
    case OtherEvent
    with 1(2) have "loopExec' w (Suc i) res = Some r" by simp
    from 1(1) [OF this] obtain n status m where n: "Suc i \<le> n"
      "busEvents w n = Response status m"
      "\<forall>j. Suc i \<le> j \<and> j < n \<longrightarrow> busEvents w j = OtherEvent"
      "r = gotSignal w status m res" by blast
    have "\<forall>j. i \<le> j \<and> j < n \<longrightarrow> busEvents w j = OtherEvent"
    proof (intro allI impI)
      fix j assume j: "i \<le> j \<and> j < n"
      show "busEvents w j = OtherEvent"
      proof (cases "j = i")
        case True
        with OtherEvent show ?thesis by simp
      next
        case False
        with j have "Suc i \<le> j \<and> j < n" by simp
        with n(3) show ?thesis by blast
      qed
    qed
    moreover from n(1) have "i \<le> n" by simp
    ultimately show ?thesis using n(2,4) by blast
  qed
qed

lemma loopExec_None_iff:
  "loopExec w 0 res = None \<longleftrightarrow> (\<forall>n. busEvents w n = OtherEvent)"
proof
  assume none: "loopExec w 0 res = None"
  show "\<forall>n. busEvents w n = OtherEvent"
  proof (rule ccontr)
    assume "\<not> (\<forall>n. busEvents w n = OtherEvent)"
    then have ex: "\<exists>n. busEvents w n \<noteq> OtherEvent" by simp
    define k where "k = (LEAST n. busEvents w n \<noteq> OtherEvent)"
    have k: "busEvents w k \<noteq> OtherEvent" unfolding k_def using ex by (rule LeastI_ex)
    have least: "\<forall>j. 0 \<le> j \<and> j < k \<longrightarrow> busEvents w j = OtherEvent"
      unfolding k_def using not_less_Least by blast
    from k obtain status m where "busEvents w k = Response status m"
      by (cases "busEvents w k") auto
    from loopExec_first [OF this least] none show False by simp
  qed
next
  assume all: "\<forall>n. busEvents w n = OtherEvent"
  show "loopExec w 0 res = None"
  proof (cases "loopExec w 0 res")
    case (Some r)
    from loopExec_Some [OF this] all show ?thesis by auto
  qed simp
qed

lemma hyprland_events_quiet:
  "\<not> list_ex isPortalEvent (snd (hyprlandDesktopGeometries w p l))
   \<and> \<not> list_ex isGrimEvent (snd (hyprlandDesktopGeometries w p l))"
  by (simp add: hyprlandDesktopGeometries_def hyprctlStart_def
      split: json_parse.splits json.splits prod.splits)

lemma desktopGeometry_events:
  "snd (desktopGeometry w) = snd (hyprlandDesktopGeometries w nullRect nullRect)"
  by (simp add: desktopGeometry_def split: prod.splits bool.splits)

lemma logicalDesktopGeometry_events:
  "snd (logicalDesktopGeometry w) = snd (hyprlandDesktopGeometries w nullRect nullRect)"
  by (simp add: logicalDesktopGeometry_def split: prod.splits bool.splits)

lemma adjust_events:
  "snd (adjustDevicePixelRatio w p) =
     snd (hyprlandDesktopGeometries w nullRect nullRect) @
     snd (hyprlandDesktopGeometries w nullRect nullRect)"
  using desktopGeometry_events [of w] logicalDesktopGeometry_events [of w]
  by (auto simp: adjustDevicePixelRatio_def split: prod.splits)

lemma adjust_events_quiet:
  "\<not> list_ex isPortalEvent (snd (adjustDevicePixelRatio w p))
   \<and> \<not> list_ex isGrimEvent (snd (adjustDevicePixelRatio w p))"
  using hyprland_events_quiet [of w nullRect nullRect] by (simp add: adjust_events)

lemma gotSignal_events_quiet:
  "\<not> list_ex isPortalEvent (snd (gotSignal w status m res))
   \<and> \<not> list_ex isGrimEvent (snd (gotSignal w status m res))"
  using adjust_events_quiet [of w "loadPixmap w (toLocalFile w (uriOf m))"]
  by (auto simp: gotSignal_def Let_def split: prod.splits)

lemma portal_events:
  assumes "freeDesktopPortal w ok res = Some (r, evs)"
  shows "portalInvoked evs \<and> \<not> grimInvoked evs"
proof (cases "serviceRegistered w")
  case False
  with assms show ?thesis
    by (auto simp: freeDesktopPortal_def portalInvoked_def grimInvoked_def)
next
  case True
  with assms obtain res' mid where l: "loopExec w 0 res = Some (res', mid)"
    and evs: "evs = [IsServiceRegistered service, RequestNew (requestPath w), Connect,
         BusCall ''Screenshot'' [] [(''handle_token'', token w), (''interactive'', ''false'')],
         LoopExec] @ mid @ [Disconnect, RequestClose, RequestDeleteLater]"
    by (auto simp: freeDesktopPortal_def split: option.splits)
  from loopExec_Some [OF l] obtain status m where "(res', mid) = gotSignal w status m res"
    by blast
  then have "mid = snd (gotSignal w status m res)" by (metis snd_conv)
  with gotSignal_events_quiet [of w status m res]
  have "\<not> list_ex isPortalEvent mid \<and> \<not> list_ex isGrimEvent mid" by simp
  with evs show ?thesis by (simp add: portalInvoked_def grimInvoked_def)
qed

lemma grim_events:
  assumes "useGrimAdapter w"
  shows "grimInvoked (snd (generalGrimScreenshot w ok res))
       \<and> \<not> portalInvoked (snd (generalGrimScreenshot w ok res))"
  using assms adjust_events_quiet [of w "loadPixmap w (xdgRuntimeDir w @ ''/flameshot.ppm'')"]
  by (auto simp: generalGrimScreenshot_def Let_def portalInvoked_def grimInvoked_def
      split: prod.splits)

lemma afterSwitch_events:
  "portalInvoked (snd (afterSwitch r)) = portalInvoked (snd r)
   \<and> grimInvoked (snd (afterSwitch r)) = grimInvoked (snd r)"
  by (simp add: afterSwitch_def portalInvoked_def grimInvoked_def split: prod.splits)

lemma prepend_warn_events:
  "portalInvoked (snd (prepend (grimWarn w msg) r)) = portalInvoked (snd r)
   \<and> grimInvoked (snd (prepend (grimWarn w msg) r)) = grimInvoked (snd r)"
  by (simp add: prepend_def grimWarn_def portalInvoked_def grimInvoked_def split: prod.splits)

lemma grimOrPortal_events:
  assumes "grimOrPortal w = Some (r, evs)"
  shows "(grimInvoked evs \<longleftrightarrow> useGrimAdapter w) \<and> (portalInvoked evs \<longleftrightarrow> \<not> useGrimAdapter w)"
proof (cases "useGrimAdapter w")
  case True
  with assms have "(r, evs) = prepend (grimWarn w grimWarning) (generalGrimScreenshot w True NullPixmap)"
    by (simp add: grimOrPortal_def)
  then have "evs = snd (prepend (grimWarn w grimWarning) (generalGrimScreenshot w True NullPixmap))"
    by (metis snd_conv)
  with grim_events [OF True, of True NullPixmap] True show ?thesis
    by (simp add: prepend_warn_events)
next
  case False
  with assms obtain r0 where p: "freeDesktopPortal w True NullPixmap = Some r0"
    and "(r, evs) = prepend (grimWarn w dbusWarning) r0"
    by (auto simp: grimOrPortal_def)
  then have "evs = snd (prepend (grimWarn w dbusWarning) r0)" by (metis snd_conv)
  moreover from p portal_events [of w True NullPixmap "fst r0" "snd r0"]
  have "portalInvoked (snd r0) \<and> \<not> grimInvoked (snd r0)" by simp
  ultimately show ?thesis using False by (simp add: prepend_warn_events)
qed

lemma declining_facts:
  "serviceRegistered decliningWorld" "waylandDetected decliningWorld"
  "windowManager decliningWorld = COSMIC"
  "busEvents decliningWorld 1 = Response 2 []"
  "\<forall>j. j < 1 \<longrightarrow> busEvents decliningWorld j = OtherEvent"
  by (simp_all add: decliningWorld_def baseWorld_def)

lemma responding_facts:
  "serviceRegistered respondingWorld" "waylandDetected respondingWorld"
  "windowManager respondingWorld = KDE"
  "busEvents respondingWorld 2 = Response 0 [(''uri'', ''file:///tmp/shot.png'')]"
  "\<forall>j. 0 \<le> j \<and> j < 2 \<longrightarrow> busEvents respondingWorld j = OtherEvent"
  by (simp_all add: respondingWorld_def baseWorld_def)

lemma responding_gotSignal:
  "gotSignal respondingWorld 0 [(''uri'', ''file:///tmp/shot.png'')] NullPixmap =
     (Pixmap 1920 1080 (Finite 1) 42,
      [PixmapLoad ''/tmp/shot.png'', FileRemove ''/tmp/shot.png''])"
  by (simp add: gotSignal_def respondingWorld_def baseWorld_def uriOf_def Let_def
      adjustDevicePixelRatio_def desktopGeometry_def logicalDesktopGeometry_def
      hyprlandDesktopGeometries_def united_def isNull_def nullRect_def mkRect_def
      unitedF_def isNullF_def nullRectF_def toAlignedRect_def rsize_def width_def height_def)

lemma responding_run:
  "freeDesktopPortal respondingWorld True NullPixmap =
     Some ((True, Pixmap 1920 1080 (Finite 1) 42),
           portalPrologue respondingWorld
           @ [PixmapLoad ''/tmp/shot.png'', FileRemove ''/tmp/shot.png'']
           @ [Disconnect, RequestClose, RequestDeleteLater])"
  using loopExec_first [OF responding_facts(4) responding_facts(5), of NullPixmap]
  by (simp add: freeDesktopPortal_def responding_facts(1) responding_gotSignal portalPrologue_def)

subsection \<open>Scale reconciliation\<close>

text \<open>
  Claim C1. \<^verbatim>\<open>adjustDevicePixelRatio\<close> follows an ordered three-case policy on a
  captured image of \<open>pw\<close> by \<open>ph\<close> pixels. If its size is the size of the physical
  desktop geometry, its ratio becomes the application's device pixel ratio.
  Otherwise, if its size is not the size of the logical desktop geometry either, its
  ratio becomes its height divided by the height \<open>h\<close> of the logical geometry, the
  division being the single-precision one: for \<open>h \<noteq> 0\<close> the ratio is the binary32
  rounding of the quotient of the two heights converted to binary32; when both
  heights are below \<open>2 ^ 24\<close> in magnitude, it is the binary32 rounding of the real
  quotient \<open>ph / h\<close>, differs from it by at most \<open>\<bar>ph / h\<bar> / 2 ^ 24\<close>, and is the
  quotient itself when \<open>h\<close> divides \<open>ph\<close>; for \<open>h = 0\<close> it is an infinity or NaN.
  Otherwise (its size is the logical size) the image is returned as it was. Size and
  content never change, and a null pixmap stays null.
\<close>

theorem adjustDevicePixelRatio_policy:
  assumes "desktopGeometry w = (physicalGeo, evs1)"
    and "logicalDesktopGeometry w = (logicalGeo, evs2)"
  shows "((pw, ph) = rsize physicalGeo \<longrightarrow>
            fst (adjustDevicePixelRatio w (Pixmap pw ph d c)) =
              Pixmap pw ph (Finite (appDevicePixelRatio w)) c)
       \<and> ((pw, ph) \<noteq> rsize physicalGeo \<and> (pw, ph) \<noteq> rsize logicalGeo
            \<and> height logicalGeo \<noteq> 0 \<longrightarrow>
            fst (adjustDevicePixelRatio w (Pixmap pw ph d c)) =
              Pixmap pw ph
                (Finite (fl32 (fl32 (real_of_int ph) / fl32 (real_of_int (height logicalGeo))))) c)
       \<and> ((pw, ph) \<noteq> rsize physicalGeo \<and> (pw, ph) \<noteq> rsize logicalGeo
            \<and> height logicalGeo \<noteq> 0 \<and> \<bar>ph\<bar> < 2 ^ 24 \<and> \<bar>height logicalGeo\<bar> < 2 ^ 24 \<longrightarrow>
            (\<exists>q. fst (adjustDevicePixelRatio w (Pixmap pw ph d c)) = Pixmap pw ph (Finite q) c
               \<and> q = fl32 (real_of_int ph / real_of_int (height logicalGeo))
               \<and> \<bar>q - real_of_int ph / real_of_int (height logicalGeo)\<bar>
                   \<le> \<bar>real_of_int ph / real_of_int (height logicalGeo)\<bar> / 2 ^ 24
               \<and> (\<forall>k. ph = k * height logicalGeo \<longrightarrow> q = real_of_int k)))
       \<and> ((pw, ph) \<noteq> rsize physicalGeo \<and> (pw, ph) \<noteq> rsize logicalGeo
            \<and> height logicalGeo = 0 \<longrightarrow>
            fst (adjustDevicePixelRatio w (Pixmap pw ph d c)) =
              Pixmap pw ph (if 0 < ph then PosInf else if ph < 0 then NegInf else NaN) c)
       \<and> ((pw, ph) \<noteq> rsize physicalGeo \<and> (pw, ph) = rsize logicalGeo \<longrightarrow>
            fst (adjustDevicePixelRatio w (Pixmap pw ph d c)) = Pixmap pw ph d c)
       \<and> fst (adjustDevicePixelRatio w NullPixmap) = NullPixmap
       \<and> snd (adjustDevicePixelRatio w (Pixmap pw ph d c)) = evs1 @ evs2"
proof -
  let ?h = "height logicalGeo"
  have third: "\<exists>q. fst (adjustDevicePixelRatio w (Pixmap pw ph d c)) = Pixmap pw ph (Finite q) c
               \<and> q = fl32 (real_of_int ph / real_of_int ?h)
               \<and> \<bar>q - real_of_int ph / real_of_int ?h\<bar> \<le> \<bar>real_of_int ph / real_of_int ?h\<bar> / 2 ^ 24
               \<and> (\<forall>k. ph = k * ?h \<longrightarrow> q = real_of_int k)"
    if a: "(pw, ph) \<noteq> rsize physicalGeo" "(pw, ph) \<noteq> rsize logicalGeo"
      and h0: "?h \<noteq> 0" and b: "\<bar>ph\<bar> < 2 ^ 24" "\<bar>?h\<bar> < 2 ^ 24"
  proof -
    have k: "fl32 (real_of_int ph / real_of_int ?h) = real_of_int k" if e: "ph = k * ?h" for k
    proof -
      from h0 have "1 \<le> \<bar>?h\<bar>" by linarith
      then have "\<bar>k\<bar> * 1 \<le> \<bar>k\<bar> * \<bar>?h\<bar>" by (intro mult_left_mono) simp_all
      with e b(1) have "\<bar>k\<bar> < 2 ^ 24" by (simp add: abs_mult)
      then have "fl32 (real_of_int k) = real_of_int k" by (rule fl32_of_int)
      moreover from e h0 have "real_of_int ph / real_of_int ?h = real_of_int k" by simp
      ultimately show ?thesis by simp
    qed
    from assms a fl32_quotient(1) [OF b h0]
    have "fst (adjustDevicePixelRatio w (Pixmap pw ph d c)) =
        Pixmap pw ph (Finite (fl32 (real_of_int ph / real_of_int ?h))) c"
      by (simp add: adjustDevicePixelRatio_def)
    with fl32_quotient(2) [OF b h0] k show ?thesis by blast
  qed
  from assms have rest: "((pw, ph) = rsize physicalGeo \<longrightarrow>
            fst (adjustDevicePixelRatio w (Pixmap pw ph d c)) =
              Pixmap pw ph (Finite (appDevicePixelRatio w)) c)"
     "((pw, ph) \<noteq> rsize physicalGeo \<and> (pw, ph) \<noteq> rsize logicalGeo
            \<and> height logicalGeo \<noteq> 0 \<longrightarrow>
            fst (adjustDevicePixelRatio w (Pixmap pw ph d c)) =
              Pixmap pw ph
                (Finite (fl32 (fl32 (real_of_int ph) / fl32 (real_of_int (height logicalGeo))))) c)"
     "((pw, ph) \<noteq> rsize physicalGeo \<and> (pw, ph) \<noteq> rsize logicalGeo
            \<and> height logicalGeo = 0 \<longrightarrow>
            fst (adjustDevicePixelRatio w (Pixmap pw ph d c)) =
              Pixmap pw ph (if 0 < ph then PosInf else if ph < 0 then NegInf else NaN) c)"
     "((pw, ph) \<noteq> rsize physicalGeo \<and> (pw, ph) = rsize logicalGeo \<longrightarrow>
            fst (adjustDevicePixelRatio w (Pixmap pw ph d c)) = Pixmap pw ph d c)"
     "fst (adjustDevicePixelRatio w NullPixmap) = NullPixmap"
     "snd (adjustDevicePixelRatio w (Pixmap pw ph d c)) = evs1 @ evs2"
    by (simp_all add: adjustDevicePixelRatio_def fdiv_def)
  with third show ?thesis by blast
qed

text \<open>
  On a desktop of 2000 by 2000 physical and 1000 by 1000 logical pixels with
  application ratio 2: an image of the physical size gets ratio 2; an image of
  height 2000 that has neither size gets 2000 / 1000 = 2, one of height 3000 gets 3,
  and one of height 1100 gets the binary32 number nearest to 1.1; an image of the
  logical size keeps its ratio.
\<close>

theorem adjustDevicePixelRatio_policy_witness:
  "fst (adjustDevicePixelRatio hidpiWorld (Pixmap 2000 2000 (Finite 1) 7)) =
     Pixmap 2000 2000 (Finite 2) 7
   \<and> fst (adjustDevicePixelRatio hidpiWorld (Pixmap 4000 2000 (Finite 1) 7)) =
     Pixmap 4000 2000 (Finite 2) 7
   \<and> fst (adjustDevicePixelRatio hidpiWorld (Pixmap 3000 3000 (Finite 1) 7)) =
     Pixmap 3000 3000 (Finite 3) 7
   \<and> fst (adjustDevicePixelRatio hidpiWorld (Pixmap 2200 1100 (Finite 1) 7)) =
     Pixmap 2200 1100 (Finite (9227469 / 8388608)) 7
   \<and> fst (adjustDevicePixelRatio hidpiWorld (Pixmap 1000 1000 (Finite 3) 7)) =
     Pixmap 1000 1000 (Finite 3) 7"
proof -
  note p = adjustDevicePixelRatio_policy [OF hidpi_physical hidpi_logical]
  have s: "rsize (mkRect 0 0 2000 2000) = (2000, 2000)" "rsize (mkRect 0 0 1000 1000) = (1000, 1000)"
    "height (mkRect 0 0 1000 1000) = 1000"
    by (simp_all add: rsize_def width_def height_def mkRect_def)
  have a: "appDevicePixelRatio hidpiWorld = 2" by (simp add: hidpiWorld_def baseWorld_def)
  have q: "fl32 (1100 / 1000) = 9227469 / 8388608" using fl32_eval_11_10 by simp
  from p [of 2000 2000 "Finite 1" 7] s a
  have 1: "fst (adjustDevicePixelRatio hidpiWorld (Pixmap 2000 2000 (Finite 1) 7)) =
     Pixmap 2000 2000 (Finite 2) 7" by simp
  from p [of 4000 2000 "Finite 1" 7] s
  have 2: "fst (adjustDevicePixelRatio hidpiWorld (Pixmap 4000 2000 (Finite 1) 7)) =
     Pixmap 4000 2000 (Finite 2) 7" by simp
  from p [of 3000 3000 "Finite 1" 7] s
  have 3: "fst (adjustDevicePixelRatio hidpiWorld (Pixmap 3000 3000 (Finite 1) 7)) =
     Pixmap 3000 3000 (Finite 3) 7" by simp
  from p [of 2200 1100 "Finite 1" 7] s q
  have 4: "fst (adjustDevicePixelRatio hidpiWorld (Pixmap 2200 1100 (Finite 1) 7)) =
     Pixmap 2200 1100 (Finite (9227469 / 8388608)) 7" by simp
  from p [of 1000 1000 "Finite 3" 7] s
  have 5: "fst (adjustDevicePixelRatio hidpiWorld (Pixmap 1000 1000 (Finite 3) 7)) =
     Pixmap 1000 1000 (Finite 3) 7" by simp
  from 1 2 3 4 5 show ?thesis by simp
qed

subsection \<open>The Hyprland query\<close>

text \<open>
  Claim C10. When \<^verbatim>\<open>hyprlandDesktopGeometries\<close> returns false, its two reference
  parameters hold what the caller passed. When it returns true, hyprctl printed an
  array with at least one entry that is not passed over, and the parameters hold
  the two unions the loop accumulated.
\<close>

theorem hyprlandDesktopGeometries_frame:
  assumes "hyprlandDesktopGeometries w physical logical = ((ret, physical', logical'), evs)"
  shows "(\<not> ret \<longrightarrow> physical' = physical \<and> logical' = logical)
       \<and> (ret \<longrightarrow> (\<exists>vs. hyprctlOutput w = Parsed (JArr vs) \<and> (\<exists>v\<in>set vs. \<not> skipped v)
                      \<and> monitorsLoop vs nullRect nullRect False = (physical', logical', True)))"
proof (cases ret)
  case False
  with assms show ?thesis
    by (auto simp: hyprlandDesktopGeometries_def
        split: if_splits json_parse.splits json.splits prod.splits)
next
  case True
  with assms obtain vs where vs: "hyprctlOutput w = Parsed (JArr vs)"
    and loop: "monitorsLoop vs nullRect nullRect False = (physical', logical', True)"
    by (auto simp: hyprlandDesktopGeometries_def
        split: if_splits json_parse.splits json.splits prod.splits)
  from loop monitorsLoop_gotMonitor [of vs nullRect nullRect False]
  have "\<exists>v\<in>set vs. \<not> skipped v" by simp
  with vs loop True show ?thesis by simp
qed

lemma hyprTimeout_run:
  "hyprlandDesktopGeometries hyprTimeoutWorld (mkRect 1 2 3 4) (mkRect 5 6 7 8) =
     ((False, mkRect 1 2 3 4, mkRect 5 6 7 8),
      [hyprctlStart, Warning ''Unable to query Hyprland monitors via hyprctl.''])"
  by (simp add: hyprlandDesktopGeometries_def hyprTimeoutWorld_def baseWorld_def)

lemma hyprMixed_run:
  "hyprlandDesktopGeometries (hyprWorld [monitorA, monitorZero]) (mkRect 1 2 3 4) (mkRect 5 6 7 8) =
     ((True, mkRect 0 0 1920 1080, mkRect 0 0 1280 720), [hyprctlStart])"
  by (simp add: hyprlandDesktopGeometries_def hyprWorld_def baseWorld_def monitorA_def
      monitorZero_def toDouble_def Let_def united_def isNull_def nullRect_def mkRect_def
      toInt_def llround_def)

text \<open>
  A timed-out query leaves the caller's rectangles; a query that lists one monitor
  of scale 1.5 and one of scale 0 overwrites them with the first monitor's.
\<close>

theorem hyprlandDesktopGeometries_frame_witness:
  "hyprlandDesktopGeometries hyprTimeoutWorld (mkRect 1 2 3 4) (mkRect 5 6 7 8) =
     ((False, mkRect 1 2 3 4, mkRect 5 6 7 8),
      [hyprctlStart, Warning ''Unable to query Hyprland monitors via hyprctl.''])
   \<and> hyprlandDesktopGeometries (hyprWorld [monitorA, monitorZero])
        (mkRect 1 2 3 4) (mkRect 5 6 7 8) =
     ((True, mkRect 0 0 1920 1080, mkRect 0 0 1280 720), [hyprctlStart])
   \<and> (\<exists>vs. hyprctlOutput (hyprWorld [monitorA, monitorZero]) = Parsed (JArr vs)
          \<and> (\<exists>v\<in>set vs. \<not> skipped v)
          \<and> monitorsLoop vs nullRect nullRect False =
              (mkRect 0 0 1920 1080, mkRect 0 0 1280 720, True))"
  using hyprlandDesktopGeometries_frame [OF hyprTimeout_run]
    hyprlandDesktopGeometries_frame [OF hyprMixed_run] hyprTimeout_run hyprMixed_run
  by simp

subsection \<open>The helper-tool backend\<close>

text \<open>
  What \<^verbatim>\<open>generalGrimScreenshot\<close> does with the helper tool preferred. When grim
  finishes, with whatever exit code, the file is loaded, removed, its scale
  reconciled, and \<^verbatim>\<open>ok = true\<close>. When grim cannot be started or does not finish
  in time, \<^verbatim>\<open>ok = false\<close>, \<^verbatim>\<open>res\<close> is untouched and the advisory is logged.
\<close>

lemma generalGrimScreenshot_outcomes:
  assumes "useGrimAdapter w"
  shows "grim w = Exited c \<longrightarrow>
           generalGrimScreenshot w ok res =
             ((True, fst (adjustDevicePixelRatio w (loadPixmap w (xdgRuntimeDir w @ ''/flameshot.ppm'')))),
              [ProcessStart ''grim'' [''-t'', ''ppm'', xdgRuntimeDir w @ ''/flameshot.ppm''],
               PixmapLoad (xdgRuntimeDir w @ ''/flameshot.ppm''),
               FileRemove (xdgRuntimeDir w @ ''/flameshot.ppm'')]
              @ snd (adjustDevicePixelRatio w (loadPixmap w (xdgRuntimeDir w @ ''/flameshot.ppm''))))"
    and "grim w = FailedToStart \<or> grim w = TimedOut \<longrightarrow>
           generalGrimScreenshot w ok res =
             ((False, res),
              [ProcessStart ''grim'' [''-t'', ''ppm'', xdgRuntimeDir w @ ''/flameshot.ppm''],
               Error grimMissing])"
  using assms by (auto simp: generalGrimScreenshot_def Let_def split: prod.splits)

text \<open>
  Claim C6, at the input where it fails. With the helper tool preferred and grim
  exiting with code 1 without writing a file, \<^verbatim>\<open>generalGrimScreenshot\<close> reports
  \<^verbatim>\<open>ok = true\<close> with a null pixmap and logs no error: \<^verbatim>\<open>waitForFinished\<close>
  answers true for every exit code, and the exit code is not read.
\<close>

theorem generalGrimScreenshot_nonzero_exit:
  "generalGrimScreenshot grimExit1World True NullPixmap =
     ((True, NullPixmap),
      [ProcessStart ''grim'' [''-t'', ''ppm'', ''/run/user/1000/flameshot.ppm''],
       PixmapLoad ''/run/user/1000/flameshot.ppm'',
       FileRemove ''/run/user/1000/flameshot.ppm''])"
  by (simp add: generalGrimScreenshot_def grimExit1World_def baseWorld_def
      adjustDevicePixelRatio_def desktopGeometry_def logicalDesktopGeometry_def
      hyprlandDesktopGeometries_def nullRect_def nullRectF_def toAlignedRect_def mkRect_def
      rsize_def width_def height_def Let_def)

subsection \<open>The permission-broker backend\<close>

text \<open>
  Claim C3. When the broker service is not registered on the session bus,
  \<^verbatim>\<open>freeDesktopPortal\<close> returns with \<^verbatim>\<open>ok = false\<close> and \<^verbatim>\<open>res\<close> untouched, and
  among its actions there is no construction of a request object, no
  subscription, no bus call and no event loop.
\<close>

theorem freeDesktopPortal_unregistered:
  assumes "\<not> serviceRegistered w"
  shows "\<exists>evs. freeDesktopPortal w ok res = Some ((False, res), evs)
           \<and> (\<forall>p. RequestNew p \<notin> set evs)
           \<and> (\<forall>m a opts. BusCall m a opts \<notin> set evs)
           \<and> Connect \<notin> set evs \<and> LoopExec \<notin> set evs"
  using assms by (simp add: freeDesktopPortal_def)

theorem freeDesktopPortal_unregistered_witness:
  "\<not> serviceRegistered baseWorld \<and>
   (\<exists>evs. freeDesktopPortal baseWorld True NullPixmap = Some ((False, NullPixmap), evs)
           \<and> (\<forall>p. RequestNew p \<notin> set evs)
           \<and> (\<forall>m a opts. BusCall m a opts \<notin> set evs)
           \<and> Connect \<notin> set evs \<and> LoopExec \<notin> set evs)"
proof -
  have h: "\<not> serviceRegistered baseWorld" by (simp add: baseWorld_def)
  from freeDesktopPortal_unregistered [OF h, of True NullPixmap] h show ?thesis by simp
qed

text \<open>
  Claim C4, as stated, fails twice. A response with status 2 to a call whose
  \<^verbatim>\<open>res\<close> already holds an image leaves \<^verbatim>\<open>ok\<close> true and the image in \<^verbatim>\<open>res\<close>. And
  with a registered broker that never answers, the call does not come back from
  its event loop: the statements after it, \<^verbatim>\<open>disconnect\<close> and \<^verbatim>\<open>Close\<close> among them,
  are never reached.
\<close>

theorem freeDesktopPortal_stale_image:
  "serviceRegistered decliningWorld
   \<and> busEvents decliningWorld 0 = OtherEvent
   \<and> busEvents decliningWorld 1 = Response 2 []
   \<and> freeDesktopPortal decliningWorld True (Pixmap 10 10 (Finite 1) 5) =
       Some ((True, Pixmap 10 10 (Finite 1) 5),
             portalPrologue decliningWorld @ [Disconnect, RequestClose, RequestDeleteLater])
   \<and> serviceRegistered silentWorld
   \<and> freeDesktopPortal silentWorld False NullPixmap = None"
proof -
  have "loopExec decliningWorld 0 (Pixmap 10 10 (Finite 1) 5) =
      Some (gotSignal decliningWorld 2 [] (Pixmap 10 10 (Finite 1) 5))"
    by (rule loopExec_first [OF declining_facts(4)]) (use declining_facts(5) in simp_all)
  then have d: "freeDesktopPortal decliningWorld True (Pixmap 10 10 (Finite 1) 5) =
       Some ((True, Pixmap 10 10 (Finite 1) 5),
             portalPrologue decliningWorld @ [Disconnect, RequestClose, RequestDeleteLater])"
    by (simp add: freeDesktopPortal_def declining_facts(1) gotSignal_def portalPrologue_def)
  have "loopExec silentWorld 0 NullPixmap = None"
    by (subst loopExec_None_iff) (simp add: silentWorld_def baseWorld_def)
  then have s: "freeDesktopPortal silentWorld False NullPixmap = None"
    by (simp add: freeDesktopPortal_def silentWorld_def baseWorld_def)
  have "busEvents decliningWorld 0 = OtherEvent" "serviceRegistered silentWorld"
    by (simp_all add: decliningWorld_def silentWorld_def baseWorld_def)
  with d s declining_facts(1,4) show ?thesis by simp
qed

text \<open>
  Claim C4, amended. With the service registered, let the first response that is
  dispatched carry \<open>status\<close> and \<open>m\<close>. Then the call returns: \<^verbatim>\<open>res\<close> is what the
  handler left, \<^verbatim>\<open>ok\<close> is false if that is null and the caller's value otherwise, and
  the actions are the prologue, those of the handler, and then disconnect, Close and
  deleteLater. For a status other than 0 the handler does nothing, so \<^verbatim>\<open>res\<close> is the
  caller's and \<^verbatim>\<open>ok\<close> is false exactly when that was null, as it is in the call made
  by the dispatcher. Every call that returns is such a call, and so ends with the
  three actions. When no response is ever dispatched the call does not return; the
  code has no timeout path.
\<close>

theorem freeDesktopPortal_cleanup:
  assumes "serviceRegistered w"
  shows "(\<forall>n status m. busEvents w n = Response status m
              \<and> (\<forall>j. j < n \<longrightarrow> busEvents w j = OtherEvent) \<longrightarrow>
            freeDesktopPortal w ok res =
              Some ((if pixmapIsNull (fst (gotSignal w status m res)) then False else ok,
                     fst (gotSignal w status m res)),
                    portalPrologue w @ snd (gotSignal w status m res)
                    @ [Disconnect, RequestClose, RequestDeleteLater])
            \<and> (status \<noteq> 0 \<longrightarrow>
                 freeDesktopPortal w ok res =
                   Some ((if pixmapIsNull res then False else ok, res),
                         portalPrologue w @ [Disconnect, RequestClose, RequestDeleteLater]))
            \<and> (status \<noteq> 0 \<longrightarrow>
                 freeDesktopPortal w ok NullPixmap =
                   Some ((False, NullPixmap),
                         portalPrologue w @ [Disconnect, RequestClose, RequestDeleteLater])))
       \<and> (\<forall>r evs. freeDesktopPortal w ok res = Some (r, evs) \<longrightarrow>
            (\<exists>n status m. busEvents w n = Response status m
               \<and> (\<forall>j. j < n \<longrightarrow> busEvents w j = OtherEvent)
               \<and> evs = portalPrologue w @ snd (gotSignal w status m res)
                         @ [Disconnect, RequestClose, RequestDeleteLater]))
       \<and> ((\<forall>n. busEvents w n = OtherEvent) \<longrightarrow> freeDesktopPortal w ok res = None)"
proof (intro conjI allI impI)
  fix n status m
  assume a: "busEvents w n = Response status m \<and> (\<forall>j. j < n \<longrightarrow> busEvents w j = OtherEvent)"
  have l: "loopExec w 0 r = Some (gotSignal w status m r)" for r
    using a by (intro loopExec_first [of w n]) auto
  from l [of res] assms show "freeDesktopPortal w ok res =
              Some ((if pixmapIsNull (fst (gotSignal w status m res)) then False else ok,
                     fst (gotSignal w status m res)),
                    portalPrologue w @ snd (gotSignal w status m res)
                    @ [Disconnect, RequestClose, RequestDeleteLater])"
    by (simp add: freeDesktopPortal_def portalPrologue_def split: prod.splits)
  {
    assume s: "status \<noteq> 0"
    from l [of res] assms s show "freeDesktopPortal w ok res =
                   Some ((if pixmapIsNull res then False else ok, res),
                         portalPrologue w @ [Disconnect, RequestClose, RequestDeleteLater])"
      by (simp add: freeDesktopPortal_def portalPrologue_def gotSignal_def)
    from l [of NullPixmap] assms s show "freeDesktopPortal w ok NullPixmap =
                   Some ((False, NullPixmap),
                         portalPrologue w @ [Disconnect, RequestClose, RequestDeleteLater])"
      by (simp add: freeDesktopPortal_def portalPrologue_def gotSignal_def)
  }
next
  fix r evs assume f: "freeDesktopPortal w ok res = Some (r, evs)"
  with assms obtain res' mid where l: "loopExec w 0 res = Some (res', mid)"
    and e: "evs = portalPrologue w @ mid @ [Disconnect, RequestClose, RequestDeleteLater]"
    by (auto simp: freeDesktopPortal_def portalPrologue_def split: option.splits)
  from loopExec_Some [OF l] obtain n status m where n: "busEvents w n = Response status m"
    "\<forall>j. 0 \<le> j \<and> j < n \<longrightarrow> busEvents w j = OtherEvent"
    "(res', mid) = gotSignal w status m res"
    by blast
  from n(3) have "mid = snd (gotSignal w status m res)" by (metis snd_conv)
  with e n(1,2) show "\<exists>n status m. busEvents w n = Response status m
               \<and> (\<forall>j. j < n \<longrightarrow> busEvents w j = OtherEvent)
               \<and> evs = portalPrologue w @ snd (gotSignal w status m res)
                         @ [Disconnect, RequestClose, RequestDeleteLater]" by auto
next
  assume "\<forall>n. busEvents w n = OtherEvent"
  then have "loopExec w 0 res = None" by (simp add: loopExec_None_iff)
  with assms show "freeDesktopPortal w ok res = None" by (simp add: freeDesktopPortal_def)
qed

text \<open>A successful round trip, and a declined one with and without an earlier image.\<close>

theorem freeDesktopPortal_cleanup_witness:
  "serviceRegistered respondingWorld
   \<and> busEvents respondingWorld 2 = Response 0 [(''uri'', ''file:///tmp/shot.png'')]
   \<and> freeDesktopPortal respondingWorld True NullPixmap =
       Some ((True, Pixmap 1920 1080 (Finite 1) 42),
             portalPrologue respondingWorld
             @ [PixmapLoad ''/tmp/shot.png'', FileRemove ''/tmp/shot.png'']
             @ [Disconnect, RequestClose, RequestDeleteLater])
   \<and> serviceRegistered decliningWorld
   \<and> busEvents decliningWorld 1 = Response 2 []
   \<and> freeDesktopPortal decliningWorld True NullPixmap =
       Some ((False, NullPixmap),
             portalPrologue decliningWorld @ [Disconnect, RequestClose, RequestDeleteLater])
   \<and> freeDesktopPortal decliningWorld True (Pixmap 10 10 (Finite 1) 5) =
       Some ((True, Pixmap 10 10 (Finite 1) 5),
             portalPrologue decliningWorld @ [Disconnect, RequestClose, RequestDeleteLater])"
proof -
  have r: "\<forall>j. j < 2 \<longrightarrow> busEvents respondingWorld j = OtherEvent"
    using responding_facts(5) by simp
  have "freeDesktopPortal respondingWorld True NullPixmap =
       Some ((True, Pixmap 1920 1080 (Finite 1) 42),
             portalPrologue respondingWorld
             @ [PixmapLoad ''/tmp/shot.png'', FileRemove ''/tmp/shot.png'']
             @ [Disconnect, RequestClose, RequestDeleteLater])"
    using freeDesktopPortal_cleanup [OF responding_facts(1), THEN conjunct1, rule_format,
        of 2 0 "[(''uri'', ''file:///tmp/shot.png'')]" True NullPixmap, THEN conjunct1]
      responding_facts(4) r
    by (simp add: responding_gotSignal)
  moreover have "freeDesktopPortal decliningWorld True NullPixmap =
       Some ((False, NullPixmap),
             portalPrologue decliningWorld @ [Disconnect, RequestClose, RequestDeleteLater])"
    using freeDesktopPortal_cleanup [OF declining_facts(1), THEN conjunct1, rule_format,
        of 1 2 "[]" True NullPixmap, THEN conjunct2, THEN conjunct2]
      declining_facts(4,5)
    by simp
  moreover have "freeDesktopPortal decliningWorld True (Pixmap 10 10 (Finite 1) 5) =
       Some ((True, Pixmap 10 10 (Finite 1) 5),
             portalPrologue decliningWorld @ [Disconnect, RequestClose, RequestDeleteLater])"
    using freeDesktopPortal_cleanup [OF declining_facts(1), THEN conjunct1, rule_format,
        of 1 2 "[]" True "Pixmap 10 10 (Finite 1) 5", THEN conjunct2, THEN conjunct1]
      declining_facts(4,5)
    by simp
  ultimately show ?thesis using declining_facts(1,4) responding_facts(1,4) by simp
qed

text \<open>
  Claim C5, as stated, fails: with the service registered and a broker that never
  answers, the call does not return.
\<close>

theorem freeDesktopPortal_never_returns:
  "freeDesktopPortal silentWorld True NullPixmap = None"
proof -
  have "loopExec silentWorld 0 NullPixmap = None"
    by (subst loopExec_None_iff) (simp add: silentWorld_def baseWorld_def)
  then show ?thesis by (simp add: freeDesktopPortal_def silentWorld_def baseWorld_def)
qed

text \<open>
  Claim C5, amended. With the service registered, \<^verbatim>\<open>freeDesktopPortal\<close> returns if
  and only if the response signal of its request is dispatched at some point: the
  wait ends with the response and with nothing else, as the code sets no timeout.
\<close>

theorem freeDesktopPortal_returns_iff:
  assumes "serviceRegistered w"
  shows "freeDesktopPortal w ok res \<noteq> None \<longleftrightarrow> (\<exists>n status m. busEvents w n = Response status m)"
proof -
  have "freeDesktopPortal w ok res = None \<longleftrightarrow> loopExec w 0 res = None"
    using assms by (simp add: freeDesktopPortal_def split: option.splits)
  also have "\<dots> \<longleftrightarrow> (\<forall>n. busEvents w n = OtherEvent)" by (rule loopExec_None_iff)
  also have "\<dots> \<longleftrightarrow> \<not> (\<exists>n status m. busEvents w n = Response status m)"
  proof -
    have "busEvents w n = OtherEvent \<longleftrightarrow> \<not> (\<exists>status m. busEvents w n = Response status m)" for n
      by (cases "busEvents w n") auto
    then show ?thesis by auto
  qed
  finally show ?thesis by simp
qed

theorem freeDesktopPortal_returns_iff_witness:
  "serviceRegistered respondingWorld
   \<and> freeDesktopPortal respondingWorld True NullPixmap \<noteq> None
   \<and> busEvents respondingWorld 2 = Response 0 [(''uri'', ''file:///tmp/shot.png'')]"
proof -
  have r: "serviceRegistered respondingWorld" by (simp add: respondingWorld_def baseWorld_def)
  have e: "busEvents respondingWorld 2 = Response 0 [(''uri'', ''file:///tmp/shot.png'')]"
    by (simp add: respondingWorld_def baseWorld_def)
  then have "\<exists>n status m. busEvents respondingWorld n = Response status m" by blast
  with freeDesktopPortal_returns_iff [OF r, of True NullPixmap] r e show ?thesis by simp
qed

subsection \<open>The dispatcher\<close>

text \<open>
  Claim C2. Under Wayland, \<^verbatim>\<open>grabEntireDesktop\<close> delegates by window manager. For
  GNOME, KDE and COSMIC it is the permission-broker backend, and a call that returns
  has asked the bus for the service and has not started grim. For QTILE, WLROOTS,
  HYPRLAND and OTHER it is the helper-tool backend if \<^verbatim>\<open>useGrimAdapter\<close> is set and
  the permission-broker backend otherwise, and a call that returns has started grim
  exactly when the flag is set and asked the bus exactly when it is not. For an
  unclassified window manager it returns \<^verbatim>\<open>ok = false\<close> with the null pixmap and
  neither backend acted.
\<close>

theorem grabEntireDesktop_dispatch:
  assumes "waylandDetected w"
  shows "(windowManager w \<in> {GNOME, KDE, COSMIC} \<longrightarrow>
            grabEntireDesktop w = map_option afterSwitch (freeDesktopPortal w True NullPixmap)
            \<and> (\<forall>r evs. grabEntireDesktop w = Some (r, evs) \<longrightarrow>
                  portalInvoked evs \<and> \<not> grimInvoked evs))
       \<and> (windowManager w \<in> {QTILE, WLROOTS, HYPRLAND, OTHER} \<longrightarrow>
            grabEntireDesktop w =
              (if useGrimAdapter w
               then Some (afterSwitch (prepend (grimWarn w grimWarning)
                            (generalGrimScreenshot w True NullPixmap)))
               else map_option (afterSwitch \<circ> prepend (grimWarn w dbusWarning))
                            (freeDesktopPortal w True NullPixmap))
            \<and> (\<forall>r evs. grabEntireDesktop w = Some (r, evs) \<longrightarrow>
                  (grimInvoked evs \<longleftrightarrow> useGrimAdapter w)
                  \<and> (portalInvoked evs \<longleftrightarrow> \<not> useGrimAdapter w)))
       \<and> (windowManager w = NONE_DETECTED \<longrightarrow>
            (\<exists>evs. grabEntireDesktop w = Some ((False, NullPixmap), evs)
                  \<and> \<not> portalInvoked evs \<and> \<not> grimInvoked evs))"
proof (intro conjI impI)
  assume wm: "windowManager w \<in> {GNOME, KDE, COSMIC}"
  with assms show eq: "grabEntireDesktop w = map_option afterSwitch (freeDesktopPortal w True NullPixmap)"
    by (auto simp: grabEntireDesktop_def)
  show "\<forall>r evs. grabEntireDesktop w = Some (r, evs) \<longrightarrow> portalInvoked evs \<and> \<not> grimInvoked evs"
  proof (intro allI impI)
    fix r evs assume "grabEntireDesktop w = Some (r, evs)"
    with eq have "map_option afterSwitch (freeDesktopPortal w True NullPixmap) = Some (r, evs)"
      by simp
    then obtain r0 where p: "freeDesktopPortal w True NullPixmap = Some r0"
      and "afterSwitch r0 = (r, evs)" by auto
    then have "evs = snd (afterSwitch r0)" by (metis snd_conv)
    moreover from p portal_events [of w True NullPixmap "fst r0" "snd r0"]
    have "portalInvoked (snd r0) \<and> \<not> grimInvoked (snd r0)" by simp
    ultimately show "portalInvoked evs \<and> \<not> grimInvoked evs" by (simp add: afterSwitch_events)
  qed
next
  assume wm: "windowManager w \<in> {QTILE, WLROOTS, HYPRLAND, OTHER}"
  with assms have g: "grabEntireDesktop w = map_option afterSwitch (grimOrPortal w)"
    by (auto simp: grabEntireDesktop_def)
  then show "grabEntireDesktop w =
              (if useGrimAdapter w
               then Some (afterSwitch (prepend (grimWarn w grimWarning)
                            (generalGrimScreenshot w True NullPixmap)))
               else map_option (afterSwitch \<circ> prepend (grimWarn w dbusWarning))
                            (freeDesktopPortal w True NullPixmap))"
    by (simp add: grimOrPortal_def option.map_comp)
  show "\<forall>r evs. grabEntireDesktop w = Some (r, evs) \<longrightarrow>
                  (grimInvoked evs \<longleftrightarrow> useGrimAdapter w)
                  \<and> (portalInvoked evs \<longleftrightarrow> \<not> useGrimAdapter w)"
  proof (intro allI impI)
    fix r evs assume "grabEntireDesktop w = Some (r, evs)"
    with g have "map_option afterSwitch (grimOrPortal w) = Some (r, evs)" by simp
    then obtain r0 where p: "grimOrPortal w = Some r0" and "afterSwitch r0 = (r, evs)" by auto
    then have "evs = snd (afterSwitch r0)" by (metis snd_conv)
    moreover from p grimOrPortal_events [of w "fst r0" "snd r0"]
    have "(grimInvoked (snd r0) \<longleftrightarrow> useGrimAdapter w) \<and> (portalInvoked (snd r0) \<longleftrightarrow> \<not> useGrimAdapter w)"
      by simp
    ultimately show "(grimInvoked evs \<longleftrightarrow> useGrimAdapter w)
                  \<and> (portalInvoked evs \<longleftrightarrow> \<not> useGrimAdapter w)"
      by (simp add: afterSwitch_events)
  qed
next
  assume "windowManager w = NONE_DETECTED"
  with assms show "\<exists>evs. grabEntireDesktop w = Some ((False, NullPixmap), evs)
                  \<and> \<not> portalInvoked evs \<and> \<not> grimInvoked evs"
    by (simp add: grabEntireDesktop_def afterSwitch_def detectErrors_def
        portalInvoked_def grimInvoked_def)
qed

text \<open>
  A COSMIC session, a session of another window manager without and a wlroots
  session with the helper tool preferred, and an unclassified session.
\<close>

theorem grabEntireDesktop_dispatch_witness:
  "waylandDetected decliningWorld \<and> windowManager decliningWorld = COSMIC
   \<and> grabEntireDesktop decliningWorld =
       Some ((False, NullPixmap),
             portalPrologue decliningWorld @ [Disconnect, RequestClose, RequestDeleteLater]
             @ [Error ''Unable to capture screen''])
   \<and> windowManager (decliningWorld\<lparr>windowManager := OTHER\<rparr>) = OTHER
   \<and> \<not> useGrimAdapter (decliningWorld\<lparr>windowManager := OTHER\<rparr>)
   \<and> grabEntireDesktop (decliningWorld\<lparr>windowManager := OTHER\<rparr>) =
       Some ((False, NullPixmap),
             [Warning dbusWarning]
             @ portalPrologue decliningWorld @ [Disconnect, RequestClose, RequestDeleteLater]
             @ [Error ''Unable to capture screen''])
   \<and> waylandDetected grimExit1World \<and> windowManager grimExit1World = WLROOTS
   \<and> useGrimAdapter grimExit1World
   \<and> grabEntireDesktop grimExit1World =
       Some ((True, NullPixmap),
             [Warning grimWarning,
              ProcessStart ''grim'' [''-t'', ''ppm'', ''/run/user/1000/flameshot.ppm''],
              PixmapLoad ''/run/user/1000/flameshot.ppm'',
              FileRemove ''/run/user/1000/flameshot.ppm''])
   \<and> waylandDetected noneWorld \<and> windowManager noneWorld = NONE_DETECTED
   \<and> (\<exists>evs. grabEntireDesktop noneWorld = Some ((False, NullPixmap), evs)
          \<and> \<not> portalInvoked evs \<and> \<not> grimInvoked evs)"
proof -
  let ?o = "decliningWorld\<lparr>windowManager := OTHER\<rparr>"
  have d: "freeDesktopPortal decliningWorld True NullPixmap =
       Some ((False, NullPixmap),
             portalPrologue decliningWorld @ [Disconnect, RequestClose, RequestDeleteLater])"
    using loopExec_first [OF declining_facts(4), of 0 NullPixmap]
    by (simp add: freeDesktopPortal_def declining_facts(1) gotSignal_def portalPrologue_def
        decliningWorld_def baseWorld_def)
  have o: "waylandDetected ?o" "windowManager ?o = OTHER" "\<not> useGrimAdapter ?o"
    "\<not> disabledGrimWarning ?o" "serviceRegistered ?o" "busEvents ?o 1 = Response 2 []"
    "portalPrologue ?o = portalPrologue decliningWorld"
    by (simp_all add: decliningWorld_def baseWorld_def portalPrologue_def requestPath_def token_def)
  have od: "freeDesktopPortal ?o True NullPixmap =
       Some ((False, NullPixmap),
             portalPrologue decliningWorld @ [Disconnect, RequestClose, RequestDeleteLater])"
    using loopExec_first [OF o(6), of 0 NullPixmap] o(7)
    by (simp add: freeDesktopPortal_def gotSignal_def portalPrologue_def
        decliningWorld_def baseWorld_def)
  have g: "generalGrimScreenshot grimExit1World True NullPixmap =
     ((True, NullPixmap),
      [ProcessStart ''grim'' [''-t'', ''ppm'', ''/run/user/1000/flameshot.ppm''],
       PixmapLoad ''/run/user/1000/flameshot.ppm'',
       FileRemove ''/run/user/1000/flameshot.ppm''])"
    by (simp add: generalGrimScreenshot_def grimExit1World_def baseWorld_def
      adjustDevicePixelRatio_def desktopGeometry_def logicalDesktopGeometry_def
      hyprlandDesktopGeometries_def nullRect_def nullRectF_def toAlignedRect_def mkRect_def
      rsize_def width_def height_def Let_def)
  have w1: "waylandDetected grimExit1World" "windowManager grimExit1World = WLROOTS"
    "useGrimAdapter grimExit1World" "\<not> disabledGrimWarning grimExit1World"
    by (simp_all add: grimExit1World_def baseWorld_def)
  have w2: "waylandDetected noneWorld" "windowManager noneWorld = NONE_DETECTED"
    by (simp_all add: noneWorld_def baseWorld_def)
  show ?thesis
    using grabEntireDesktop_dispatch [OF declining_facts(2)]
      grabEntireDesktop_dispatch [OF o(1)]
      grabEntireDesktop_dispatch [OF w1(1)] grabEntireDesktop_dispatch [OF w2(1)]
      declining_facts(2,3) o(2,3,4) w1 w2 d od g
    by (simp add: afterSwitch_def prepend_def grimWarn_def)
qed

subsection \<open>Desktop geometry\<close>

text \<open>
  Claim C7. The Hyprland query gives the same answer for an array of monitors and
  for that array without the entries that are no objects or have a width, height or
  scale that is not positive: such entries reach neither union. When hyprctl does
  not finish within its bound (not started, or timed out), or its output is no JSON
  array, or every entry is of that kind, the query returns false, and
  \<^verbatim>\<open>desktopGeometry\<close> and \<^verbatim>\<open>logicalDesktopGeometry\<close> are what the loops over
  the screens compute.
\<close>

theorem hyprland_skips_and_falls_back:
  "hyprlandDesktopGeometries (w\<lparr>hyprctlOutput := Parsed (JArr vs)\<rparr>) p l =
     hyprlandDesktopGeometries
       (w\<lparr>hyprctlOutput := Parsed (JArr (filter (\<lambda>v. \<not> skipped v) vs))\<rparr>) p l
   \<and> (\<not> waitForFinished (hyprctl w)
        \<or> (\<forall>vs. hyprctlOutput w \<noteq> Parsed (JArr vs))
        \<or> (\<exists>vs. hyprctlOutput w = Parsed (JArr vs) \<and> (\<forall>v\<in>set vs. skipped v))
      \<longrightarrow> fst (fst (hyprlandDesktopGeometries w p l)) = False
          \<and> fst (desktopGeometry w) = physicalLoop (screens w) nullRect
          \<and> fst (logicalDesktopGeometry w) = toAlignedRect (logicalLoop (screens w) nullRectF))"
proof (intro conjI impI)
  show "hyprlandDesktopGeometries (w\<lparr>hyprctlOutput := Parsed (JArr vs)\<rparr>) p l =
     hyprlandDesktopGeometries
       (w\<lparr>hyprctlOutput := Parsed (JArr (filter (\<lambda>v. \<not> skipped v) vs))\<rparr>) p l"
    using monitorsLoop_filter [of vs nullRect nullRect False]
    by (simp add: hyprlandDesktopGeometries_def)
next
  assume a: "\<not> waitForFinished (hyprctl w)
        \<or> (\<forall>vs. hyprctlOutput w \<noteq> Parsed (JArr vs))
        \<or> (\<exists>vs. hyprctlOutput w = Parsed (JArr vs) \<and> (\<forall>v\<in>set vs. skipped v))"
  have f: "fst (fst (hyprlandDesktopGeometries w p l)) = False" for p l
    using a
    by (auto simp: hyprlandDesktopGeometries_def monitorsLoop_all_skipped
        split: json_parse.splits json.splits prod.splits)
  from f show "fst (fst (hyprlandDesktopGeometries w p l)) = False" .
  from hyprland_false_generic [OF f]
  show "fst (desktopGeometry w) = physicalLoop (screens w) nullRect"
    and "fst (logicalDesktopGeometry w) = toAlignedRect (logicalLoop (screens w) nullRectF)"
    by simp_all
qed

text \<open>
  One monitor of scale 1.5 with one of scale 0 gives the unions of the first alone;
  a timed-out hyprctl, and an array with the zero-scale monitor only, give the
  geometry of the two screens.
\<close>

theorem hyprland_skips_and_falls_back_witness:
  "hyprlandDesktopGeometries (hyprWorld [monitorA, monitorZero]) nullRect nullRect =
     hyprlandDesktopGeometries (hyprWorld [monitorA]) nullRect nullRect
   \<and> hyprlandDesktopGeometries (hyprWorld [monitorA]) nullRect nullRect =
     ((True, mkRect 0 0 1920 1080, mkRect 0 0 1280 720), [hyprctlStart])
   \<and> \<not> waitForFinished (hyprctl hyprTimeoutWorld)
   \<and> fst (desktopGeometry hyprTimeoutWorld) = mkRect 0 0 4480 1440
   \<and> fst (logicalDesktopGeometry hyprTimeoutWorld) = mkRect 0 0 3584 1152
   \<and> fst (desktopGeometry ((hyprWorld [monitorZero])\<lparr>screens := twoOutputs\<rparr>)) =
       mkRect 0 0 4480 1440"
proof -
  have s: "filter (\<lambda>v. \<not> skipped v) [monitorA, monitorZero] = [monitorA]"
    by (simp add: monitorA_def monitorZero_def toDouble_def)
  have u: "(hyprWorld [])\<lparr>hyprctlOutput := Parsed (JArr vs)\<rparr> = hyprWorld vs" for vs
    by (simp add: hyprWorld_def)
  have a: "hyprlandDesktopGeometries (hyprWorld [monitorA]) nullRect nullRect =
     ((True, mkRect 0 0 1920 1080, mkRect 0 0 1280 720), [hyprctlStart])"
    by (simp add: hyprlandDesktopGeometries_def hyprWorld_def baseWorld_def monitorA_def
      toDouble_def Let_def united_def isNull_def nullRect_def mkRect_def
      toInt_def llround_def)
  have t: "\<not> waitForFinished (hyprctl hyprTimeoutWorld)"
    "screens hyprTimeoutWorld = twoOutputs"
    by (simp_all add: hyprTimeoutWorld_def baseWorld_def)
  have z: "hyprctlOutput ((hyprWorld [monitorZero])\<lparr>screens := twoOutputs\<rparr>) =
             Parsed (JArr [monitorZero]) \<and> (\<forall>v\<in>set [monitorZero]. skipped v)"
    "screens ((hyprWorld [monitorZero])\<lparr>screens := twoOutputs\<rparr>) = twoOutputs"
    by (simp_all add: hyprWorld_def baseWorld_def monitorZero_def toDouble_def)
  from z(1) have z': "\<exists>vs. hyprctlOutput ((hyprWorld [monitorZero])\<lparr>screens := twoOutputs\<rparr>) =
             Parsed (JArr vs) \<and> (\<forall>v\<in>set vs. skipped v)" by blast
  show ?thesis
    using hyprland_skips_and_falls_back [where w = "hyprWorld []" and vs = "[monitorA, monitorZero]"
        and p = nullRect and l = nullRect]
      hyprland_skips_and_falls_back [where w = hyprTimeoutWorld and vs = "[]"
        and p = nullRect and l = nullRect]
      hyprland_skips_and_falls_back
        [where w = "(hyprWorld [monitorZero])\<lparr>screens := twoOutputs\<rparr>" and vs = "[]"
        and p = nullRect and l = nullRect]
      s u a t z(2) z' twoOutputs_physical twoOutputs_logical
    by simp
qed

text \<open>
  Claim C9, as stated, fails in its example: for the outputs A and B the logical
  geometry is not (0,0,3968,1152).
\<close>

theorem logical_union_example_differs:
  "fst (logicalDesktopGeometry twoOutputsWorld) \<noteq> mkRect 0 0 3968 1152"
  using hyprland_false_generic [of twoOutputsWorld] twoOutputs_logical
  by (simp add: hyprlandDesktopGeometries_def twoOutputsWorld_def baseWorld_def mkRect_def)

text \<open>
  Claim C9, amended. On the generic path, with at least one screen, at most
  \<open>2 ^ 19\<close> of them, each of positive size and within range: the physical geometry
  is the bounding box of the screens' rectangles. The logical geometry is computed
  in doubles from the rectangles with origin and size each divided by the screen's
  own ratio, and rounded outward. When the four logical edges of every screen are
  whole numbers, it is the bounding box of the divided rectangles: floor of the
  least left and top edge, ceiling of the greatest right and bottom edge. In
  general its left and top corner are the floor of the least rounded quotient, and
  each of its four edges lies within one pixel of that bounding box: the left and
  top edge at it or one pixel inside, the right and bottom edge at it or one pixel
  to either side.
\<close>

theorem generic_geometry_bounding_box:
  assumes "fst (fst (hyprlandDesktopGeometries w nullRect nullRect)) = False"
    and "screens w \<noteq> []"
    and "\<forall>s\<in>set (screens w). validScreen s \<and> boundedScreen s"
    and "length (screens w) \<le> 2 ^ 19"
  shows "fst (desktopGeometry w) =
           QRect (Min ((\<lambda>s. qx1 (geometry s)) ` set (screens w)))
                 (Min ((\<lambda>s. qy1 (geometry s)) ` set (screens w)))
                 (Max ((\<lambda>s. qx2 (geometry s)) ` set (screens w)))
                 (Max ((\<lambda>s. qy2 (geometry s)) ` set (screens w)))
       \<and> ((\<forall>s\<in>set (screens w). wholeScreen s) \<longrightarrow>
            fst (logicalDesktopGeometry w) =
              QRect \<lfloor>Min (logicalLeft ` set (screens w))\<rfloor>
                    \<lfloor>Min (logicalTop ` set (screens w))\<rfloor>
                    (\<lceil>Max (logicalRight ` set (screens w))\<rceil> - 1)
                    (\<lceil>Max (logicalBottom ` set (screens w))\<rceil> - 1))
       \<and> qx1 (fst (logicalDesktopGeometry w)) =
            \<lfloor>Min ((\<lambda>s. fl64 (logicalLeft s)) ` set (screens w))\<rfloor>
       \<and> qy1 (fst (logicalDesktopGeometry w)) =
            \<lfloor>Min ((\<lambda>s. fl64 (logicalTop s)) ` set (screens w))\<rfloor>
       \<and> \<lfloor>Min (logicalLeft ` set (screens w))\<rfloor> \<le> qx1 (fst (logicalDesktopGeometry w))
       \<and> qx1 (fst (logicalDesktopGeometry w)) \<le> \<lfloor>Min (logicalLeft ` set (screens w))\<rfloor> + 1
       \<and> \<lfloor>Min (logicalTop ` set (screens w))\<rfloor> \<le> qy1 (fst (logicalDesktopGeometry w))
       \<and> qy1 (fst (logicalDesktopGeometry w)) \<le> \<lfloor>Min (logicalTop ` set (screens w))\<rfloor> + 1
       \<and> \<lceil>Max (logicalRight ` set (screens w))\<rceil> - 1 \<le> qx2 (fst (logicalDesktopGeometry w)) + 1
       \<and> qx2 (fst (logicalDesktopGeometry w)) + 1 \<le> \<lceil>Max (logicalRight ` set (screens w))\<rceil> + 1
       \<and> \<lceil>Max (logicalBottom ` set (screens w))\<rceil> - 1 \<le> qy2 (fst (logicalDesktopGeometry w)) + 1
       \<and> qy2 (fst (logicalDesktopGeometry w)) + 1 \<le> \<lceil>Max (logicalBottom ` set (screens w))\<rceil> + 1"
proof -
  have v: "\<forall>s\<in>set (screens w). qx1 (geometry s) \<le> qx2 (geometry s) \<and> qy1 (geometry s) \<le> qy2 (geometry s)"
    using assms(3) by (simp add: validScreen_def)
  note g = hyprland_false_generic [OF assms(1)]
  note e = generic_logical_edges [OF assms(2,3,4)]
  have p: "fst (desktopGeometry w) =
           QRect (Min ((\<lambda>s. qx1 (geometry s)) ` set (screens w)))
                 (Min ((\<lambda>s. qy1 (geometry s)) ` set (screens w)))
                 (Max ((\<lambda>s. qx2 (geometry s)) ` set (screens w)))
                 (Max ((\<lambda>s. qy2 (geometry s)) ` set (screens w)))"
    using g physicalLoop_bbox [OF assms(2) v] by simp
  have x: "(\<forall>s\<in>set (screens w). wholeScreen s) \<longrightarrow>
            fst (logicalDesktopGeometry w) =
              QRect \<lfloor>Min (logicalLeft ` set (screens w))\<rfloor>
                    \<lfloor>Min (logicalTop ` set (screens w))\<rfloor>
                    (\<lceil>Max (logicalRight ` set (screens w))\<rceil> - 1)
                    (\<lceil>Max (logicalBottom ` set (screens w))\<rceil> - 1)"
    using g generic_logical_exact [OF assms(2,3) _ assms(4)] by simp
  from p x e show ?thesis unfolding g [THEN conjunct2] by (intro conjI)
qed

text \<open>
  For A and B the geometries are (0,0,4480,1440) and (0,0,3584,1152): the origin
  1920 of B is divided by 1.25 as well, so B ends at 1536 + 2048 = 3584. For the
  output of ratio 1.5 left of the origin the divided union runs from -1706.67 to
  1920, and the computed right corner is 1920, one pixel past the corner 1919 of
  the outward rounding.
\<close>

theorem generic_geometry_bounding_box_witness:
  "fst (desktopGeometry twoOutputsWorld) = mkRect 0 0 4480 1440
   \<and> fst (logicalDesktopGeometry twoOutputsWorld) = mkRect 0 0 3584 1152
   \<and> fst (desktopGeometry fractionalWorld) = QRect (- 2560) 0 1919 1439
   \<and> fst (logicalDesktopGeometry fractionalWorld) = QRect (- 1707) 0 1920 1079
   \<and> \<lfloor>Min (logicalLeft ` set (screens fractionalWorld))\<rfloor> = - 1707
   \<and> \<lceil>Max (logicalRight ` set (screens fractionalWorld))\<rceil> = 1920"
proof -
  have h: "fst (fst (hyprlandDesktopGeometries twoOutputsWorld nullRect nullRect)) = False"
    by (simp add: hyprlandDesktopGeometries_def twoOutputsWorld_def baseWorld_def)
  have s: "screens twoOutputsWorld = twoOutputs" by (simp add: twoOutputsWorld_def baseWorld_def)
  have n: "screens twoOutputsWorld \<noteq> []" by (simp add: s twoOutputs_def)
  have v: "\<forall>s\<in>set (screens twoOutputsWorld). validScreen s \<and> boundedScreen s"
    by (simp add: s twoOutputs_def validScreen_def boundedScreen_def mkRect_def)
  have l: "length (screens twoOutputsWorld) \<le> 2 ^ 19" by (simp add: s twoOutputs_def)
  have w: "\<forall>s\<in>set (screens twoOutputsWorld). wholeScreen s"
    by (simp add: s twoOutputs_def wholeScreen_def isWhole_def mkRect_def logicalLeft_def
        logicalTop_def logicalRight_def logicalBottom_def)
  note t = generic_geometry_bounding_box [OF h n v l]
  from t [THEN conjunct1]
  have 1: "fst (desktopGeometry twoOutputsWorld) = mkRect 0 0 4480 1440"
    by (simp add: s twoOutputs_def mkRect_def)
  from t [THEN conjunct2, THEN conjunct1] w
  have 2: "fst (logicalDesktopGeometry twoOutputsWorld) = mkRect 0 0 3584 1152"
    by (simp add: s twoOutputs_def mkRect_def logicalLeft_def logicalTop_def logicalRight_def
        logicalBottom_def)
  have h': "fst (fst (hyprlandDesktopGeometries fractionalWorld nullRect nullRect)) = False"
    by (simp add: hyprlandDesktopGeometries_def fractionalWorld_def baseWorld_def)
  have s': "screens fractionalWorld =
      [\<lparr> geometry = mkRect (- 2560) 0 2560 1440, screenRatio = 3 / 2 \<rparr>,
       \<lparr> geometry = mkRect 0 0 1920 1080, screenRatio = 1 \<rparr>]"
    by (simp add: fractionalWorld_def baseWorld_def)
  have n': "screens fractionalWorld \<noteq> []" by (simp add: s')
  have v': "\<forall>s\<in>set (screens fractionalWorld). validScreen s \<and> boundedScreen s"
    by (simp add: s' validScreen_def boundedScreen_def mkRect_def)
  have l': "length (screens fractionalWorld) \<le> 2 ^ 19" by (simp add: s')
  note t' = generic_geometry_bounding_box [OF h' n' v' l']
  from t' [THEN conjunct1]
  have 3: "fst (desktopGeometry fractionalWorld) = QRect (- 2560) 0 1919 1439"
    by (simp add: s' mkRect_def)
  from hyprland_false_generic [OF h'] fractional_logical
  have 4: "fst (logicalDesktopGeometry fractionalWorld) = QRect (- 1707) 0 1920 1079" by simp
  have 5: "\<lfloor>Min (logicalLeft ` set (screens fractionalWorld))\<rfloor> = - 1707"
    "\<lceil>Max (logicalRight ` set (screens fractionalWorld))\<rceil> = 1920"
    by (simp_all add: s' mkRect_def logicalLeft_def logicalRight_def)
  from 1 2 3 4 5 show ?thesis by simp
qed




end
